theory Spec2Isabelle
  imports Main
begin

section \<open>JavaScript strings\<close>

text \<open>
  A JavaScript string is a sequence of UTF-16 code units and \<open>length\<close> counts code
  units; the zero-width space U+200B is one unit.  Strings are therefore lists of code
  units, each unit the integer that \<open>charCodeAt\<close> returns, and \<open>str\<close> turns an ASCII
  literal into such a list.
\<close>

type_synonym jsstring = "int list"

definition str :: "string \<Rightarrow> jsstring" where
  "str s = map of_char s"

text \<open>\<open>export const ZWS\<close>, the zero-width space U+200B (src/core/token.ts, line 25).\<close>

definition ZWS :: int where
  "ZWS = 8203"

definition NL :: int where
  "NL = 10"

definition SP :: int where
  "SP = 32"

definition TAB :: int where
  "TAB = 9"

definition COMMA :: int where
  "COMMA = 44"

text \<open>The class \<open>\s\<close> of ECMAScript regular expressions (WhiteSpace and LineTerminator),
  which is also what \<open>trimEnd\<close> removes.\<close>

definition isWhitespace :: "int \<Rightarrow> bool" where
  "isWhitespace c =
     (c = 9 \<or> c = 10 \<or> c = 11 \<or> c = 12 \<or> c = 13 \<or> c = 32 \<or> c = 160 \<or> c = 5760 \<or>
      (8192 \<le> c \<and> c \<le> 8202) \<or> c = 8232 \<or> c = 8233 \<or> c = 8239 \<or> c = 8287 \<or>
      c = 12288 \<or> c = 65279)"

text \<open>The line terminators, which \<open>.\<close> does not match.\<close>

definition isLineTerminator :: "int \<Rightarrow> bool" where
  "isLineTerminator c = (c = 10 \<or> c = 13 \<or> c = 8232 \<or> c = 8233)"

text \<open>\<open>spaces\<close>: the zero-width space or \<open>\s\<close> (src/core/token.ts, line 27).\<close>

definition isSpaces :: "int \<Rightarrow> bool" where
  "isSpaces c = (c = ZWS \<or> isWhitespace c)"

text \<open>\<open>String.prototype.trimEnd\<close>.\<close>

definition trimEnd :: "jsstring \<Rightarrow> jsstring" where
  "trimEnd s = rev (dropWhile isWhitespace (rev s))"

text \<open>\<open>String.prototype.endsWith\<close> for a one-unit argument.\<close>

definition endsWith :: "jsstring \<Rightarrow> int \<Rightarrow> bool" where
  "endsWith s c = (s \<noteq> [] \<and> last s = c)"

text \<open>\<open>String.prototype.repeat\<close> with a count that is known to be non-negative.\<close>

definition repeat :: "jsstring \<Rightarrow> nat \<Rightarrow> jsstring" where
  "repeat s n = concat (replicate n s)"

text \<open>
  The case-insensitive match of a regular expression with the flag \<open>i\<close> and without the
  flag \<open>u\<close>: a pattern letter of Basic Latin matches its two cases and nothing else, so
  two units match when \<open>upperChar\<close> gives the same for both.
\<close>

definition upperChar :: "int \<Rightarrow> int" where
  "upperChar c = (if 97 \<le> c \<and> c \<le> 122 then c - 32 else c)"

text \<open>
  \<open>String.prototype.toUpperCase\<close> and \<open>toLowerCase\<close> map each unit by the Unicode case
  mappings, whatever the locale, and one unit may become several (U+00DF becomes \<open>SS\<close>).
  \<open>upperUnit\<close> and \<open>lowerUnit\<close> are these mappings on Basic Latin and the Latin-1
  Supplement (U+0000 to U+00FF), on U+017F (long s) and U+212A (Kelvin sign), the two
  other units that match a Basic Latin letter under the flags \<open>iu\<close> and that a reserved
  word can therefore hold, and on the three units these mappings lead to (U+0178, U+039C,
  U+03BC).  Every other unit is returned as it is, which is the mapping of the units
  without case; the letters of other scripts are not modelled.
\<close>

definition upperUnit :: "int \<Rightarrow> jsstring" where
  "upperUnit c =
     (if (97 \<le> c \<and> c \<le> 122) \<or> (224 \<le> c \<and> c \<le> 254 \<and> c \<noteq> 247) then [c - 32]
      else if c = 181 then [924]
      else if c = 223 then [83, 83]
      else if c = 255 then [376]
      else if c = 383 then [83]
      else if c = 956 then [924]
      else [c])"

definition lowerUnit :: "int \<Rightarrow> jsstring" where
  "lowerUnit c =
     (if (65 \<le> c \<and> c \<le> 90) \<or> (192 \<le> c \<and> c \<le> 222 \<and> c \<noteq> 215) then [c + 32]
      else if c = 376 then [255]
      else if c = 924 then [956]
      else if c = 8490 then [107]
      else [c])"

definition toUpperCase :: "jsstring \<Rightarrow> jsstring" where
  "toUpperCase s = concat (map upperUnit s)"

definition toLowerCase :: "jsstring \<Rightarrow> jsstring" where
  "toLowerCase s = concat (map lowerUnit s)"

section \<open>Tokens (src/core/token.ts)\<close>

datatype TokenType =
    WORD
  | STRING
  | RESERVED_KEYWORD
  | RESERVED_LOGICAL_OPERATOR
  | RESERVED_DEPENDENT_CLAUSE
  | RESERVED_BINARY_COMMAND
  | RESERVED_COMMAND
  | OPERATOR
  | BLOCK_START
  | BLOCK_END
  | LINE_COMMENT
  | BLOCK_COMMENT
  | NUMBER
  | PLACEHOLDER

text \<open>The optional fields \<open>key?\<close> and \<open>whitespaceBefore?\<close> are \<open>None\<close> when undefined.\<close>

record Token =
  "value" :: jsstring
  type :: TokenType
  key :: "jsstring option"
  whitespaceBefore :: "jsstring option"

text \<open>
  \<open>testToken\<close>: the type is the same and the value matches
  \<open>^spaces*VALUE spaces*$\<close> with the flags \<open>iu\<close>.  Under these flags a pattern
  letter matches its two ASCII cases and the code units that fold to it (U+017F for S,
  U+212A for K).
\<close>

definition foldEq :: "int \<Rightarrow> int \<Rightarrow> bool" where
  "foldEq p c = (upperChar c = upperChar p \<or> (upperChar p = 83 \<and> c = 383) \<or>
                 (upperChar p = 75 \<and> c = 8490))"

definition stripSpaces :: "jsstring \<Rightarrow> jsstring" where
  "stripSpaces s = rev (dropWhile isSpaces (rev (dropWhile isSpaces s)))"

definition testToken :: "jsstring \<Rightarrow> TokenType \<Rightarrow> Token \<Rightarrow> bool" where
  "testToken v ty token = (type token = ty \<and> list_all2 foldEq v (stripSpaces (value token)))"

text \<open>The lookups \<open>tokens[i]\<close> may be undefined; \<open>testToken\<close> is then false
  (\<open>token?.type\<close> is undefined).\<close>

definition testTokenOpt :: "jsstring \<Rightarrow> TokenType \<Rightarrow> Token option \<Rightarrow> bool" where
  "testTokenOpt v ty t = (case t of None \<Rightarrow> False | Some token \<Rightarrow> testToken v ty token)"

definition isToken_AS :: "Token \<Rightarrow> bool" where
  "isToken_AS = testToken (str ''AS'') RESERVED_KEYWORD"

definition isToken_AND :: "Token \<Rightarrow> bool" where
  "isToken_AND = testToken (str ''AND'') RESERVED_LOGICAL_OPERATOR"

definition isToken_BETWEEN :: "Token option \<Rightarrow> bool" where
  "isToken_BETWEEN = testTokenOpt (str ''BETWEEN'') RESERVED_KEYWORD"

definition isToken_CASE :: "Token \<Rightarrow> bool" where
  "isToken_CASE = testToken (str ''CASE'') BLOCK_START"

definition isToken_END :: "Token option \<Rightarrow> bool" where
  "isToken_END = testTokenOpt (str ''END'') BLOCK_END"

definition isToken_FROM :: "Token \<Rightarrow> bool" where
  "isToken_FROM = testToken (str ''FROM'') RESERVED_COMMAND"

definition isToken_LIMIT :: "Token option \<Rightarrow> bool" where
  "isToken_LIMIT = testTokenOpt (str ''LIMIT'') RESERVED_COMMAND"

definition isToken_SELECT :: "Token \<Rightarrow> bool" where
  "isToken_SELECT = testToken (str ''SELECT'') RESERVED_COMMAND"

definition isCommand :: "Token option \<Rightarrow> bool" where
  "isCommand t = (case t of None \<Rightarrow> False
     | Some token \<Rightarrow> type token = RESERVED_COMMAND \<or> type token = RESERVED_BINARY_COMMAND)"

definition isReserved :: "Token \<Rightarrow> bool" where
  "isReserved token =
     (type token = RESERVED_KEYWORD \<or>
      type token = RESERVED_LOGICAL_OPERATOR \<or>
      type token = RESERVED_DEPENDENT_CLAUSE \<or>
      type token = RESERVED_COMMAND \<or>
      type token = RESERVED_BINARY_COMMAND)"

section \<open>Configuration\<close>

text \<open>
  The option types of \<open>FormatOptions\<close> are read off their uses in the formatter:
  \<open>KeywordMode\<close>, \<open>NewlineMode | number\<close>, \<open>AliasMode\<close>, \<open>CommaPosition\<close>.
  A numeric \<open>newline\<close> is \<open>Number n\<close>, or \<open>NotANumber\<close> for NaN.
\<close>

datatype KeywordMode = Standard | TenSpaceLeft | TenSpaceRight

datatype NewlineMode = Always | Never | LineWidth | Number int | NotANumber

datatype AliasMode = AliasNever | AliasSelect | AliasAlways

datatype CommaPosition = Before | After | Tabular

record ParenOptions =
  openParenNewline :: bool
  closeParenNewline :: bool

record ParamItems =
  positional :: "jsstring list"
  named :: "(jsstring \<times> jsstring) list"

record FormatOptions =
  indent :: jsstring
  uppercase :: bool
  keywordPosition :: KeywordMode
  newline :: NewlineMode
  lineWidth :: int
  breakBeforeBooleanOperator :: bool
  aliasAs :: AliasMode
  tabulateAlias :: bool
  commaPosition :: CommaPosition
  parenOptions :: ParenOptions
  linesBetweenQueries :: int
  denseOperators :: bool
  semicolonNewline :: bool
  params :: ParamItems

text \<open>\<open>this.cfg.tenSpace\<close>, set in the constructor (lines 36-38).\<close>

definition tenSpace :: "FormatOptions \<Rightarrow> bool" where
  "tenSpace cfg =
     (keywordPosition cfg = TenSpaceLeft \<or> keywordPosition cfg = TenSpaceRight)"

section \<open>Helpers of the formatter that live in other modules\<close>

text \<open>
  Modelled from the spec: \<open>trimSpacesEnd\<close> of \<open>../utils\<close> (not among the sources).
  The formatter trims "trailing space" with it and then asks whether the text ends in a
  line break (\<open>addNewline\<close>, lines 536-538), so it removes blanks and tabs and keeps
  line breaks.
\<close>

definition trimSpacesEnd :: "jsstring \<Rightarrow> jsstring" where
  "trimSpacesEnd s = rev (dropWhile (\<lambda>c. c = SP \<or> c = TAB) (rev s))"

text \<open>
  Modelled from the spec: \<open>maxLength\<close> of \<open>../utils\<close> (not among the sources), "the
  run's maximum width".
\<close>

definition maxLength :: "jsstring list \<Rightarrow> nat" where
  "maxLength strings = foldr (\<lambda>s m. max (length s) m) strings 0"

text \<open>
  Modelled from the spec: the class \<open>Indentation\<close> (not among the sources).  Two
  counters, top-level depth and block depth; \<open>getIndent\<close> is the indent unit repeated
  once per level of either kind; the decrease operations saturate at zero; a reset
  sets both to zero.  The constructor receives the indent unit only (line 42).
\<close>

record Indentation =
  indentUnit :: jsstring
  topLevelDepth :: nat
  blockDepth :: nat

definition newIndentation :: "jsstring \<Rightarrow> Indentation" where
  "newIndentation u = \<lparr>indentUnit = u, topLevelDepth = 0, blockDepth = 0\<rparr>"

definition getIndent :: "Indentation \<Rightarrow> jsstring" where
  "getIndent i = repeat (indentUnit i) (topLevelDepth i + blockDepth i)"

definition increaseTopLevel :: "Indentation \<Rightarrow> Indentation" where
  "increaseTopLevel i = i\<lparr>topLevelDepth := topLevelDepth i + 1\<rparr>"

definition decreaseTopLevel :: "Indentation \<Rightarrow> Indentation" where
  "decreaseTopLevel i = i\<lparr>topLevelDepth := topLevelDepth i - 1\<rparr>"

definition increaseBlockLevel :: "Indentation \<Rightarrow> Indentation" where
  "increaseBlockLevel i = i\<lparr>blockDepth := blockDepth i + 1\<rparr>"

definition decreaseBlockLevel :: "Indentation \<Rightarrow> Indentation" where
  "decreaseBlockLevel i = i\<lparr>blockDepth := blockDepth i - 1\<rparr>"

definition resetIndentation :: "Indentation \<Rightarrow> Indentation" where
  "resetIndentation i = i\<lparr>topLevelDepth := 0, blockDepth := 0\<rparr>"

text \<open>
  Modelled from the spec: the class \<open>InlineBlock\<close> (not among the sources).  One
  optional record of the active block (start and end index).  A block start is
  eligible when its matching block end exists (bracket matching with a depth counter),
  no token of the span is a command, a binary command or a line comment, and the
  values of the span, put on one line, fit the line width.  Parentheses opened inside
  an active block belong to it: they are counted, so that the record is cleared at
  the block end that matches its start.
\<close>

record InlineBlock =
  blockLineWidth :: int
  active :: "(nat \<times> nat) option"
  nestedInside :: nat

definition newInlineBlock :: "int \<Rightarrow> InlineBlock" where
  "newInlineBlock w = \<lparr>blockLineWidth = w, active = None, nestedInside = 0\<rparr>"

fun matchingEnd :: "Token list \<Rightarrow> nat \<Rightarrow> nat option" where
  "matchingEnd [] d = None"
| "matchingEnd (t # ts) d =
     (if type t = BLOCK_START then map_option Suc (matchingEnd ts (d + 1))
      else if type t = BLOCK_END then
        (if d \<le> 1 then Some 0 else map_option Suc (matchingEnd ts (d - 1)))
      else map_option Suc (matchingEnd ts d))"

definition isForbiddenToken :: "Token \<Rightarrow> bool" where
  "isForbiddenToken t =
     (type t = RESERVED_COMMAND \<or> type t = RESERVED_BINARY_COMMAND \<or> type t = LINE_COMMENT)"

definition isInlineBlock :: "InlineBlock \<Rightarrow> Token list \<Rightarrow> nat \<Rightarrow> nat option" where
  "isInlineBlock ib toks i =
     (case matchingEnd (drop i toks) 0 of
        None \<Rightarrow> None
      | Some k \<Rightarrow>
          (let span = take (k + 1) (drop i toks) in
           if \<not> list_ex isForbiddenToken span \<and>
              int (length (concat (map value span))) \<le> blockLineWidth ib
           then Some (i + k) else None))"

definition beginIfPossible :: "InlineBlock \<Rightarrow> Token list \<Rightarrow> nat \<Rightarrow> InlineBlock" where
  "beginIfPossible ib toks i =
     (case active ib of
        Some b \<Rightarrow> ib\<lparr>nestedInside := nestedInside ib + 1\<rparr>
      | None \<Rightarrow>
          (case isInlineBlock ib toks i of
             None \<Rightarrow> ib
           | Some e \<Rightarrow> ib\<lparr>active := Some (i, e), nestedInside := 0\<rparr>))"

definition isActive :: "InlineBlock \<Rightarrow> bool" where
  "isActive ib = (active ib \<noteq> None)"

definition endInlineBlock :: "InlineBlock \<Rightarrow> InlineBlock" where
  "endInlineBlock ib =
     (if nestedInside ib = 0 then ib\<lparr>active := None\<rparr>
      else ib\<lparr>nestedInside := nestedInside ib - 1\<rparr>)"

text \<open>
  Modelled from the spec: the class \<open>Params\<close> (not among the sources).  A placeholder
  with a key (a name or an index) takes the value supplied under that key; one without
  takes the next positional value; a placeholder with no supplied value keeps its own
  text.
\<close>

record Params =
  items :: ParamItems
  position :: nat

definition newParams :: "ParamItems \<Rightarrow> Params" where
  "newParams p = \<lparr>items = p, position = 0\<rparr>"

definition paramsGet :: "Params \<Rightarrow> Token \<Rightarrow> jsstring \<times> Params" where
  "paramsGet p token =
     (case key token of
        Some k \<Rightarrow>
          (case map_of (named (items p)) k of
             Some v \<Rightarrow> (v, p)
           | None \<Rightarrow> (value token, p))
      | None \<Rightarrow>
          (if position p < length (positional (items p))
           then (positional (items p) ! position p, p\<lparr>position := position p + 1\<rparr>)
           else (value token, p)))"

section \<open>The formatter's state (src/core/Formatter.ts, lines 10-50)\<close>

text \<open>
  The fields of the class that change during a run.  \<open>previousReservedToken\<close> starts as
  the empty object, on which every token test is false: \<open>None\<close>.  The cursor starts at
  \<open>-1\<close> in the constructor and is set to \<open>0\<close> by the loop before it is first read.
\<close>

record Formatter =
  tokens :: "Token list"
  index :: nat
  currentNewline :: bool
  indentation :: Indentation
  inlineBlock :: InlineBlock
  paramState :: Params
  previousReservedToken :: "Token option"
  withinSelect :: bool

definition newFormatter :: "FormatOptions \<Rightarrow> Formatter" where
  "newFormatter cfg =
     \<lparr>tokens = [], index = 0, currentNewline = True,
      indentation = newIndentation (indent cfg),
      inlineBlock = newInlineBlock (lineWidth cfg),
      paramState = newParams (params cfg),
      previousReservedToken = None, withinSelect = False\<rparr>"

text \<open>\<open>tokens[i]\<close>: undefined outside the array.\<close>

definition tokenAt :: "Token list \<Rightarrow> nat \<Rightarrow> Token option" where
  "tokenAt toks i = (if i < length toks then Some (toks ! i) else None)"

definition tokenLookBehind :: "Formatter \<Rightarrow> nat \<Rightarrow> Token option" where
  "tokenLookBehind st n = (if n \<le> index st then tokenAt (tokens st) (index st - n) else None)"

definition tokenLookAhead :: "Formatter \<Rightarrow> nat \<Rightarrow> Token option" where
  "tokenLookAhead st n = tokenAt (tokens st) (index st + n)"

text \<open>\<open>t?.value === s\<close> and \<open>t?.type === ty\<close> on a token that may be undefined.\<close>

definition valueIs :: "Token option \<Rightarrow> jsstring \<Rightarrow> bool" where
  "valueIs t s = (case t of None \<Rightarrow> False | Some token \<Rightarrow> value token = s)"

definition typeIs :: "Token option \<Rightarrow> TokenType \<Rightarrow> bool" where
  "typeIs t ty = (case t of None \<Rightarrow> False | Some token \<Rightarrow> type token = ty)"

section \<open>The newline decision (lines 261-314)\<close>

text \<open>\<open>Array.prototype.findIndex\<close>: \<open>-1\<close> when no element satisfies the predicate.\<close>

fun findIndexFrom :: "('a \<Rightarrow> bool) \<Rightarrow> 'a list \<Rightarrow> int \<Rightarrow> int" where
  "findIndexFrom P [] i = - 1"
| "findIndexFrom P (x # xs) i = (if P x then i else findIndexFrom P xs (i + 1))"

definition findIndex :: "('a \<Rightarrow> bool) \<Rightarrow> 'a list \<Rightarrow> int" where
  "findIndex P xs = findIndexFrom P xs 0"

text \<open>\<open>xs.slice(0, e)\<close>: a negative end counts from the end of the array.\<close>

definition sliceTo :: "'a list \<Rightarrow> int \<Rightarrow> 'a list" where
  "sliceTo xs e = (if e < 0 then take (nat (int (length xs) + e)) xs else take (nat e) xs)"

definition isClauseBoundary :: "Token \<Rightarrow> bool" where
  "isClauseBoundary t =
     (type t = RESERVED_COMMAND \<or> type t = RESERVED_BINARY_COMMAND \<or> value t = str '';'')"

definition nextTokens :: "Token list \<Rightarrow> nat \<Rightarrow> Token list" where
  "nextTokens toks i =
     (let tail = drop (i + 1) toks in
      if tail = [] then tail else sliceTo tail (findIndex isClauseBoundary tail))"

definition isCaseStart :: "Token \<Rightarrow> bool" where
  "isCaseStart t = (type t = BLOCK_START \<and> 1 < length (value t))"

text \<open>The accumulator \<open>{ count, inParen }\<close> of the reduction, as a pair.\<close>

definition countItem :: "nat \<times> bool \<Rightarrow> Token \<Rightarrow> nat \<times> bool" where
  "countItem acc t =
     (if value t = str '','' \<and> \<not> snd acc then (fst acc + 1, snd acc)
      else if type t = BLOCK_START then (fst acc, True)
      else if type t = BLOCK_END then (fst acc, False)
      else acc)"

definition numItems :: "Token list \<Rightarrow> nat" where
  "numItems ts = fst (foldl countItem (1, False) ts)"

text \<open>An undefined \<open>whitespaceBefore\<close> is interpolated as the text \<open>undefined\<close>.\<close>

definition interpolate :: "jsstring option \<Rightarrow> jsstring" where
  "interpolate w = (case w of None \<Rightarrow> str ''undefined'' | Some s \<Rightarrow> s)"

definition inlineWidth :: "Token \<Rightarrow> Token list \<Rightarrow> nat" where
  "inlineWidth token ts =
     length (interpolate (whitespaceBefore token) @ value token @ [SP] @
             concat (map (\<lambda>t. if value t = str '','' then value t @ [SP] else value t) ts))"

text \<open>\<open>checkNewline\<close> is called with the cursor, which is inside the token array.\<close>

definition checkNewline :: "FormatOptions \<Rightarrow> Formatter \<Rightarrow> nat \<Rightarrow> bool" where
  "checkNewline cfg st i =
     (let nt = nextTokens (tokens st) i in
      if newline cfg = Always \<or> (withinSelect st \<and> list_ex isCaseStart nt) then True
      else if newline cfg = Never then False
      else
        (let n = numItems nt; w = inlineWidth (tokens st ! i) nt in
         case newline cfg of
           LineWidth \<Rightarrow> lineWidth cfg < int w
         | Number k \<Rightarrow> k < int n \<or> lineWidth cfg < int w
         | _ \<Rightarrow> True))"

section \<open>Rendering one token (lines 316-571)\<close>

text \<open>
  The exceptions a run can end with: a read of a property of \<open>undefined\<close> or \<open>null\<close>,
  and \<open>String.prototype.repeat\<close> with a negative count.  \<open>NotInterpreted\<close> is no exception
  of the program: it is the result of a run that builds a regular expression from the
  indent unit (line 121) when the unit is a pattern that this development does not
  interpret; what the program does then (a SyntaxError or a replacement) is not modelled.
\<close>

datatype error = TypeError | RangeError | NotInterpreted

datatype Preserve = PreserveBefore | PreserveAfter | PreserveBoth

text \<open>\<open>show\<close> (lines 523-533).\<close>

definition showToken :: "FormatOptions \<Rightarrow> Token \<Rightarrow> jsstring" where
  "showToken cfg token =
     (if isReserved token \<or> type token = BLOCK_START \<or> type token = BLOCK_END
      then (if uppercase cfg then toUpperCase (value token) else toLowerCase (value token))
      else value token)"

definition addNewline :: "Formatter \<Rightarrow> jsstring \<Rightarrow> jsstring" where
  "addNewline st query =
     (let q = trimSpacesEnd query;
          q' = (if endsWith q NL then q else q @ [NL])
      in q' @ getIndent (indentation st))"

text \<open>\<open>string.replace(/\s+/gu, ' ')\<close>; the flag says whether the previous unit was
  whitespace already replaced.\<close>

fun collapseWhitespace :: "bool \<Rightarrow> jsstring \<Rightarrow> jsstring" where
  "collapseWhitespace inRun [] = []"
| "collapseWhitespace inRun (c # cs) =
     (if isWhitespace c then
        (if inRun then collapseWhitespace True cs else SP # collapseWhitespace True cs)
      else c # collapseWhitespace False cs)"

definition equalizeWhitespace :: "jsstring \<Rightarrow> jsstring" where
  "equalizeWhitespace s = collapseWhitespace False s"

text \<open>\<open>comment.replace(/\n[ \t]*/gu, '\n' + indent + ' ')\<close>; the flag says whether the
  blanks being read follow a line break.\<close>

fun reindent :: "jsstring \<Rightarrow> bool \<Rightarrow> jsstring \<Rightarrow> jsstring" where
  "reindent ind afterBreak [] = []"
| "reindent ind afterBreak (c # cs) =
     (if c = NL then NL # ind @ [SP] @ reindent ind True cs
      else if afterBreak \<and> (c = SP \<or> c = TAB) then reindent ind True cs
      else c # reindent ind False cs)"

definition indentComment :: "Formatter \<Rightarrow> jsstring \<Rightarrow> jsstring" where
  "indentComment st comment = reindent (getIndent (indentation st)) False comment"

definition formatWithSpaces :: "FormatOptions \<Rightarrow> Token \<Rightarrow> jsstring \<Rightarrow> Preserve \<Rightarrow> jsstring" where
  "formatWithSpaces cfg token query preserve =
     (let before = (if preserve = PreserveAfter then trimSpacesEnd query else query);
          after = (if preserve = PreserveBefore then [] else [SP])
      in before @ showToken cfg token @ after)"

definition formatWithoutSpaces :: "FormatOptions \<Rightarrow> Token \<Rightarrow> jsstring \<Rightarrow> jsstring" where
  "formatWithoutSpaces cfg token query = trimSpacesEnd query @ showToken cfg token"

definition formatLineComment :: "FormatOptions \<Rightarrow> Formatter \<Rightarrow> Token \<Rightarrow> jsstring \<Rightarrow> jsstring" where
  "formatLineComment cfg st token query = addNewline st (query @ showToken cfg token)"

definition formatBlockComment :: "Formatter \<Rightarrow> Token \<Rightarrow> jsstring \<Rightarrow> jsstring" where
  "formatBlockComment st token query =
     addNewline st (addNewline st query @ indentComment st (value token))"

definition formatAliases :: "FormatOptions \<Rightarrow> Formatter \<Rightarrow> Token \<Rightarrow> jsstring \<Rightarrow> jsstring" where
  "formatAliases cfg st token query =
     (let prevToken = tokenLookBehind st 1;
          nextToken = tokenLookAhead st 1;
          asToken = \<lparr>value = (if uppercase cfg then str ''AS'' else str ''as''),
                     type = RESERVED_KEYWORD, key = None, whitespaceBefore = None\<rparr>;
          missingTableAlias =
            (aliasAs cfg = AliasAlways \<and> type token = WORD \<and> valueIs prevToken (str '')''));
          missingSelectColumnAlias =
            (withinSelect st \<and> type token = WORD \<and>
             (isToken_END prevToken \<or>
              (typeIs prevToken WORD \<and> (valueIs nextToken (str '','') \<or> isCommand nextToken))))
      in if missingTableAlias \<or> missingSelectColumnAlias
         then formatWithSpaces cfg asToken query PreserveBoth
         else query)"

definition formatCommand :: "FormatOptions \<Rightarrow> Formatter \<Rightarrow> Token \<Rightarrow> jsstring \<Rightarrow> Formatter \<times> jsstring" where
  "formatCommand cfg st token query =
     (let st1 = st\<lparr>indentation := decreaseTopLevel (indentation st)\<rparr>;
          q1 = addNewline st1 query;
          st2 = (if tenSpace cfg then
                   (if \<not> valueIs (tokenLookAhead st1 1) (str ''('')
                    then st1\<lparr>indentation := increaseTopLevel (indentation st1)\<rparr> else st1)
                 else if \<not> (valueIs (tokenLookAhead st1 1) (str ''('') \<and> isToken_FROM token)
                 then st1\<lparr>indentation := increaseTopLevel (indentation st1)\<rparr>
                 else st1);
          q2 = q1 @ equalizeWhitespace (showToken cfg token)
      in if currentNewline st2 \<and> \<not> tenSpace cfg then (st2, addNewline st2 q2)
         else (st2, q2 @ [SP]))"

text \<open>\<open>/JOIN/i.test(value)\<close>: the letters occur somewhere in the value, in either case.\<close>

fun containsJoin :: "jsstring \<Rightarrow> bool" where
  "containsJoin [] = False"
| "containsJoin (c # cs) =
     (map upperChar (take 4 (c # cs)) = str ''JOIN'' \<or> containsJoin cs)"

definition formatBinaryCommand :: "FormatOptions \<Rightarrow> Formatter \<Rightarrow> Token \<Rightarrow> jsstring \<Rightarrow> Formatter \<times> jsstring" where
  "formatBinaryCommand cfg st token query =
     (let isJoin = containsJoin (value token);
          st1 = (if \<not> isJoin \<or> tenSpace cfg
                 then st\<lparr>indentation := decreaseTopLevel (indentation st)\<rparr> else st);
          q1 = addNewline st1 query @ equalizeWhitespace (showToken cfg token)
      in if isJoin then (st1, q1 @ [SP]) else (st1, addNewline st1 q1))"

definition formatKeyword :: "FormatOptions \<Rightarrow> Formatter \<Rightarrow> Token \<Rightarrow> jsstring \<Rightarrow> jsstring" where
  "formatKeyword cfg st token query =
     (if isToken_AS token \<and>
         (aliasAs cfg = AliasNever \<or>
          (aliasAs cfg = AliasSelect \<and>
           valueIs (tokenLookBehind st 1) (str '')'') \<and>
           \<not> withinSelect st \<and>
           \<not> valueIs (tokenLookAhead st 1) (str ''('')))
      then query
      else formatWithSpaces cfg token query PreserveBoth)"

definition formatDependentClause :: "FormatOptions \<Rightarrow> Formatter \<Rightarrow> Token \<Rightarrow> jsstring \<Rightarrow> jsstring" where
  "formatDependentClause cfg st token query =
     addNewline st query @ equalizeWhitespace (showToken cfg token) @ [SP]"

definition formatLogicalOperator :: "FormatOptions \<Rightarrow> Formatter \<Rightarrow> Token \<Rightarrow> jsstring \<Rightarrow> Formatter \<times> jsstring" where
  "formatLogicalOperator cfg st token query =
     (if isToken_AND token \<and> isToken_BETWEEN (tokenLookBehind st 2)
      then (st, formatWithSpaces cfg token query PreserveBoth)
      else
        (let st1 = (if tenSpace cfg
                    then st\<lparr>indentation := decreaseTopLevel (indentation st)\<rparr> else st)
         in if breakBeforeBooleanOperator cfg
            then (st1, (if currentNewline st1 then addNewline st1 query else query) @
                       equalizeWhitespace (showToken cfg token) @ [SP])
            else (let q1 = query @ showToken cfg token
                  in (st1, if currentNewline st1 then addNewline st1 q1 else q1))))"

definition preserveWhitespaceFor :: "Token option \<Rightarrow> bool" where
  "preserveWhitespaceFor t =
     (typeIs t BLOCK_START \<or> typeIs t LINE_COMMENT \<or> typeIs t OPERATOR)"

definition formatBlockStart :: "FormatOptions \<Rightarrow> Formatter \<Rightarrow> Token \<Rightarrow> jsstring \<Rightarrow> Formatter \<times> jsstring" where
  "formatBlockStart cfg st token query =
     (let (st1, q1) =
            (if isToken_CASE token then (st, formatWithSpaces cfg token query PreserveBoth)
             else
               (let q0 = (if whitespaceBefore token = Some [] \<and>
                             \<not> preserveWhitespaceFor (tokenLookBehind st 1)
                          then trimSpacesEnd query
                          else if \<not> openParenNewline (parenOptions cfg)
                          then trimEnd query @ [SP]
                          else query)
                in (st\<lparr>inlineBlock := beginIfPossible (inlineBlock st) (tokens st) (index st)\<rparr>,
                    q0 @ showToken cfg token)))
      in if \<not> isActive (inlineBlock st1) then
           (let st2 = st1\<lparr>indentation := increaseBlockLevel (indentation st1)\<rparr>
            in if \<not> isToken_CASE token \<or> newline cfg = Always
               then (st2, addNewline st2 q1) else (st2, q1))
         else (st1, q1))"

definition formatBlockEnd :: "FormatOptions \<Rightarrow> Formatter \<Rightarrow> Token \<Rightarrow> jsstring \<Rightarrow> Formatter \<times> jsstring" where
  "formatBlockEnd cfg st token query =
     (if isActive (inlineBlock st)
      then (st\<lparr>inlineBlock := endInlineBlock (inlineBlock st)\<rparr>,
            formatWithSpaces cfg token query PreserveAfter)
      else
        (let st1 = st\<lparr>indentation := decreaseBlockLevel (indentation st)\<rparr>;
             q1 = (if tenSpace cfg then addNewline st1 query @ indent cfg
                   else if closeParenNewline (parenOptions cfg) then addNewline st1 query
                   else trimEnd query @ [SP])
         in (st1, formatWithSpaces cfg token q1 PreserveBoth)))"

definition formatPlaceholder :: "Formatter \<Rightarrow> Token \<Rightarrow> jsstring \<Rightarrow> Formatter \<times> jsstring" where
  "formatPlaceholder st token query =
     (let (v, p) = paramsGet (paramState st) token
      in (st\<lparr>paramState := p\<rparr>, query @ v @ [SP]))"

definition formatComma :: "FormatOptions \<Rightarrow> Formatter \<Rightarrow> Token \<Rightarrow> jsstring \<Rightarrow> jsstring" where
  "formatComma cfg st token query =
     (let q1 = trimSpacesEnd query @ showToken cfg token @ [SP]
      in if isActive (inlineBlock st) then q1
         else if isToken_LIMIT (previousReservedToken st) then q1
         else if currentNewline st then addNewline st q1
         else q1)"

text \<open>\<open>'\n'.repeat((linesBetweenQueries || 1) + 1)\<close>: zero counts as unset, and a
  negative count is a RangeError.\<close>

definition formatQuerySeparator :: "FormatOptions \<Rightarrow> Formatter \<Rightarrow> Token \<Rightarrow> jsstring \<Rightarrow> error + Formatter \<times> jsstring" where
  "formatQuerySeparator cfg st token query =
     (let st1 = st\<lparr>indentation := resetIndentation (indentation st)\<rparr>;
          q1 = trimSpacesEnd query;
          q2 = (if semicolonNewline cfg
                then (if tenSpace cfg then q1 @ [NL] @ indent cfg else q1 @ [NL])
                else q1);
          n = (if linesBetweenQueries cfg = 0 then 1 else linesBetweenQueries cfg) + 1
      in if n < 0 then Inl RangeError
         else Inr (st1, q2 @ showToken cfg token @ repeat [NL] (nat n)))"

definition formatOperator :: "FormatOptions \<Rightarrow> Formatter \<Rightarrow> Token \<Rightarrow> jsstring \<Rightarrow> error + Formatter \<times> jsstring" where
  "formatOperator cfg st token query =
     (if value token = str '','' then Inr (st, formatComma cfg st token query)
      else if value token = str '';'' then formatQuerySeparator cfg st token query
      else if value token = str ''$'' \<or> value token = str ''[''
      then Inr (st, formatWithSpaces cfg token query PreserveBefore)
      else if value token = str '':'' \<or> value token = str '']''
      then Inr (st, formatWithSpaces cfg token query PreserveAfter)
      else if value token = str ''.'' \<or> value token = str ''{'' \<or> value token = str ''}'' \<or>
              value token = [96]
      then Inr (st, formatWithoutSpaces cfg token query)
      else if denseOperators cfg \<and> \<not> typeIs (tokenLookBehind st 1) RESERVED_COMMAND
      then Inr (st, formatWithoutSpaces cfg token query)
      else Inr (st, formatWithSpaces cfg token query PreserveBoth))"

text \<open>\<open>string.split(c)\<close> and \<open>array.join(c)\<close> for a one-unit separator.\<close>

fun splitOn :: "int \<Rightarrow> jsstring \<Rightarrow> jsstring list" where
  "splitOn c [] = [[]]"
| "splitOn c (x # xs) =
     (if x = c then [] # splitOn c xs
      else (case splitOn c xs of [] \<Rightarrow> [[x]] | y # ys \<Rightarrow> (x # y) # ys))"

fun joinWith :: "int \<Rightarrow> jsstring list \<Rightarrow> jsstring" where
  "joinWith c [] = []"
| "joinWith c [x] = x"
| "joinWith c (x # y # ys) = x @ c # joinWith c (y # ys)"

text \<open>\<open>tenSpacedToken\<close> (lines 543-563).  \<open>addBuffer\<close> pads to nine units; the result
  is the value the token holds after the assignment \<open>token.value = ...\<close>.\<close>

definition addBuffer :: "jsstring \<Rightarrow> jsstring" where
  "addBuffer s = repeat [ZWS] (9 - length s)"

definition tenSpacedToken :: "FormatOptions \<Rightarrow> Token \<Rightarrow> Token" where
  "tenSpacedToken cfg token =
     (if tenSpace cfg then
        (let pieces = (if 10 \<le> length (value token) \<and> SP \<in> set (value token)
                       then splitOn SP (value token) else [value token]);
             bufferItem = hd pieces;
             tail = tl pieces;
             padded = (if keywordPosition cfg = TenSpaceLeft
                       then bufferItem @ addBuffer bufferItem
                       else addBuffer bufferItem @ bufferItem)
         in token\<lparr>value := padded @ joinWith SP ([] # tail)\<rparr>)
      else token)"

section \<open>The token loop (lines 189-237)\<close>

text \<open>
  \<open>tokenOverride\<close> of the base class returns its argument, so \<open>token\<close> is the object
  stored at \<open>tokens[index]\<close>: the assignment to \<open>token.value\<close> in \<open>tenSpacedToken\<close>
  writes into the token array, and \<open>previousReservedToken\<close> refers to the same object.
  \<open>reprocess\<close> is lines 193-203: it returns the state after these writes and the token
  the dispatch then works with.
\<close>

definition tokenOverride :: "Token \<Rightarrow> Token" where
  "tokenOverride token = token"

definition reprocess :: "FormatOptions \<Rightarrow> Formatter \<Rightarrow> Formatter \<times> Token" where
  "reprocess cfg st =
     (let token = tokenOverride (tokens st ! index st) in
      if isReserved token then
        (let token' = (if type token \<noteq> RESERVED_KEYWORD then tenSpacedToken cfg token
                       else token);
             st1 = st\<lparr>tokens := (tokens st)[index st := token'],
                      previousReservedToken := Some token'\<rparr>;
             st2 = (if type token' = RESERVED_COMMAND
                    then st1\<lparr>withinSelect := isToken_SELECT token'\<rparr> else st1)
         in (st2, token'))
      else (st, token))"

text \<open>The body of the loop, for a cursor inside the token array.\<close>

definition formatToken :: "FormatOptions \<Rightarrow> Formatter \<Rightarrow> jsstring \<Rightarrow> error + Formatter \<times> jsstring" where
  "formatToken cfg st0 formattedQuery =
     (let (st, token) = reprocess cfg st0 in
      if type token = LINE_COMMENT
      then Inr (st, formatLineComment cfg st token formattedQuery)
      else if type token = BLOCK_COMMENT
      then Inr (st, formatBlockComment st token formattedQuery)
      else if type token = RESERVED_COMMAND
      then (let st1 = st\<lparr>currentNewline := checkNewline cfg st (index st)\<rparr>
            in Inr (formatCommand cfg st1 token formattedQuery))
      else if type token = RESERVED_BINARY_COMMAND
      then Inr (formatBinaryCommand cfg st token formattedQuery)
      else if type token = RESERVED_DEPENDENT_CLAUSE
      then Inr (st, formatDependentClause cfg st token formattedQuery)
      else if type token = RESERVED_LOGICAL_OPERATOR
      then Inr (formatLogicalOperator cfg st token formattedQuery)
      else if type token = RESERVED_KEYWORD
      then Inr (st\<lparr>previousReservedToken := Some token\<rparr>,
                formatKeyword cfg st token formattedQuery)
      else if type token = BLOCK_START
      then Inr (formatBlockStart cfg st token formattedQuery)
      else if type token = BLOCK_END
      then Inr (formatBlockEnd cfg st token formattedQuery)
      else if type token = PLACEHOLDER
      then Inr (formatPlaceholder st token formattedQuery)
      else if type token = OPERATOR
      then formatOperator cfg st token formattedQuery
      else
        (let q1 = (if aliasAs cfg \<noteq> AliasNever
                   then formatAliases cfg st token formattedQuery else formattedQuery)
         in Inr (st, formatWithSpaces cfg token q1 PreserveBoth)))"

text \<open>
  \<open>for (this.index = 0; this.index < this.tokens.length; this.index++)\<close>: no statement
  of the body adds or removes a token or assigns the cursor, so the cursor visits the
  positions of the array in order; an exception ends the run.
\<close>

primrec formatTokens :: "FormatOptions \<Rightarrow> nat list \<Rightarrow> Formatter \<Rightarrow> jsstring \<Rightarrow> error + Formatter \<times> jsstring" where
  "formatTokens cfg [] st formattedQuery = Inr (st, formattedQuery)"
| "formatTokens cfg (i # is) st formattedQuery =
     (case formatToken cfg (st\<lparr>index := i\<rparr>) formattedQuery of
        Inl e \<Rightarrow> Inl e
      | Inr (st', q') \<Rightarrow> formatTokens cfg is st' q')"

text \<open>\<open>formattedQuery.replace(new RegExp(ZWS, 'ugim'), ' ')\<close>.\<close>

definition replaceZWS :: "jsstring \<Rightarrow> jsstring" where
  "replaceZWS s = map (\<lambda>c. if c = ZWS then SP else c) s"

definition runTokenLoop :: "FormatOptions \<Rightarrow> Formatter \<Rightarrow> error + Formatter \<times> jsstring" where
  "runTokenLoop cfg st = formatTokens cfg [0..<length (tokens st)] st []"

definition getFormattedQueryFromTokens :: "FormatOptions \<Rightarrow> Formatter \<Rightarrow> error + jsstring" where
  "getFormattedQueryFromTokens cfg st =
     (case runTokenLoop cfg st of
        Inl e \<Rightarrow> Inl e
      | Inr (st', formattedQuery) \<Rightarrow> Inr (replaceZWS formattedQuery))"

section \<open>The two passes over the rendered text (lines 84-187)\<close>

text \<open>Results that may be an exception: prefixing lines to a result.\<close>

definition prependLines :: "jsstring list \<Rightarrow> error + jsstring list \<Rightarrow> error + jsstring list" where
  "prependLines ls r = (case r of Inl e \<Rightarrow> Inl e | Inr out \<Rightarrow> Inr (ls @ out))"

text \<open>\<open>line.match(/.*,$/)\<close>: the pattern is not anchored at the start, so it matches
  exactly the lines whose last unit is a comma.  \<open>line.replace(/,$/, '')\<close> removes that
  comma.\<close>

definition endsWithComma :: "jsstring \<Rightarrow> bool" where
  "endsWithComma l = endsWith l COMMA"

definition stripTrailingComma :: "jsstring \<Rightarrow> jsstring" where
  "stripTrailingComma l = (if endsWithComma l then butlast l else l)"

subsection \<open>Comma positions (lines 95-138)\<close>

text \<open>\<open>commaLines.map\<close> of the tabular mode: every line but the last is padded to the
  longest line and gets its comma back.\<close>

definition tabulateCommas :: "jsstring list \<Rightarrow> jsstring list" where
  "tabulateCommas commaLines =
     (let stripped = map stripTrailingComma commaLines;
          commaMaxLength = maxLength stripped
      in map (\<lambda>commaLine. commaLine @ replicate (commaMaxLength - length commaLine) SP @ [COMMA])
           (butlast stripped) @ [last stripped])"

text \<open>
  The mode \<open>before\<close> builds \<open>new RegExp(indent + '$')\<close> from the indent unit (or from a
  tab when the unit holds one).  The patterns interpreted are the sequences of units
  without a meaning of their own in a regular expression, each of them as it is or
  followed by one \<open>?\<close> (the unit is then optional); \<open>parsePattern\<close> is \<open>None\<close> on every
  other text.  \<open>isRegexSpecial\<close> are the units with a meaning of their own.
\<close>

definition isRegexSpecial :: "int \<Rightarrow> bool" where
  "isRegexSpecial c =
     (c = 92 \<or> c = 94 \<or> c = 36 \<or> c = 46 \<or> c = 42 \<or> c = 43 \<or> c = 63 \<or> c = 40 \<or>
      c = 41 \<or> c = 91 \<or> c = 93 \<or> c = 123 \<or> c = 125 \<or> c = 124)"

datatype Atom = Lit int | Opt int

fun parsePattern :: "jsstring \<Rightarrow> Atom list option" where
  "parsePattern [] = Some []"
| "parsePattern [c] = (if isRegexSpecial c then None else Some [Lit c])"
| "parsePattern (c # d # cs) =
     (if isRegexSpecial c then None
      else if d = 63 then map_option (Cons (Opt c)) (parsePattern cs)
      else map_option (Cons (Lit c)) (parsePattern (d # cs)))"

text \<open>An indent unit whose pattern is the unit read as text: no unit of it has a meaning
  of its own, or the unit holds a tab and the pattern is the tab.\<close>

definition literalIndent :: "FormatOptions \<Rightarrow> bool" where
  "literalIndent cfg = (TAB \<in> set (indent cfg) \<or> \<not> list_ex isRegexSpecial (indent cfg))"

text \<open>The whole of a text matches the pattern (the pattern ends in \<open>$\<close>, and without the
  flag \<open>m\<close> that is the end of the text).\<close>

fun matchesAtoms :: "Atom list \<Rightarrow> jsstring \<Rightarrow> bool" where
  "matchesAtoms [] s = (s = [])"
| "matchesAtoms (Lit c # atoms) s =
     (case s of [] \<Rightarrow> False | x # xs \<Rightarrow> x = c \<and> matchesAtoms atoms xs)"
| "matchesAtoms (Opt c # atoms) s =
     ((case s of [] \<Rightarrow> False | x # xs \<Rightarrow> x = c \<and> matchesAtoms atoms xs) \<or>
      matchesAtoms atoms s)"

text \<open>The first match: the leftmost position from which the rest of the text matches.
  The result is the text before that position, \<open>preceding\<close> being the text already passed.\<close>

fun firstMatch :: "Atom list \<Rightarrow> jsstring \<Rightarrow> jsstring \<Rightarrow> jsstring option" where
  "firstMatch atoms preceding [] = (if matchesAtoms atoms [] then Some preceding else None)"
| "firstMatch atoms preceding (x # xs) =
     (if matchesAtoms atoms (x # xs) then Some preceding
      else firstMatch atoms (preceding @ [x]) xs)"

text \<open>\<open>s.replace(/ {2}$/, ', ')\<close>.\<close>

definition commaForTwoSpaces :: "jsstring \<Rightarrow> jsstring" where
  "commaForTwoSpaces s =
     (if 2 \<le> length s \<and> drop (length s - 2) s = [SP, SP]
      then take (length s - 2) s @ [COMMA, SP] else s)"

text \<open>\<open>ws.replace(new RegExp(pattern + '$'), replacement)\<close>: the first match, which
  goes to the end of the text, is replaced; the replacement holds no \<open>$\<close>, which is not a
  unit of an interpreted pattern.\<close>

definition replaceAtEnd :: "jsstring \<Rightarrow> Atom list \<Rightarrow> jsstring \<Rightarrow> jsstring" where
  "replaceAtEnd ws atoms replacement =
     (case firstMatch atoms [] ws of None \<Rightarrow> ws | Some preceding \<Rightarrow> preceding @ replacement)"

text \<open>
  Modelled from the spec: \<open>WHITESPACE_REGEX\<close> of the tokenizer (not among the sources),
  the pattern of "the leading indentation" of a line, \<open>^(\s+)\<close>.  A line without leading
  whitespace does not match, and reading group 1 of the null match is a TypeError.
\<close>

definition leadingWhitespace :: "jsstring \<Rightarrow> jsstring" where
  "leadingWhitespace l = takeWhile isWhitespace l"

definition commaBeforeLine :: "FormatOptions \<Rightarrow> jsstring \<Rightarrow> error + jsstring" where
  "commaBeforeLine cfg commaLine =
     (let isTabs = (TAB \<in> set (indent cfg));
          ws = leadingWhitespace commaLine
      in if ws = [] then Inl TypeError
         else (case parsePattern (if isTabs then [TAB] else indent cfg) of
                 None \<Rightarrow> Inl NotInterpreted
               | Some atoms \<Rightarrow>
                   Inr (replaceAtEnd ws atoms
                          (commaForTwoSpaces (if isTabs then [SP, SP, SP, SP] else indent cfg)) @
                        dropWhile isWhitespace commaLine)))"

fun mapResult :: "('a \<Rightarrow> error + 'b) \<Rightarrow> 'a list \<Rightarrow> error + 'b list" where
  "mapResult f [] = Inr []"
| "mapResult f (x # xs) =
     (case f x of
        Inl e \<Rightarrow> Inl e
      | Inr y \<Rightarrow> (case mapResult f xs of Inl e \<Rightarrow> Inl e | Inr ys \<Rightarrow> Inr (y # ys)))"

definition commasBefore :: "FormatOptions \<Rightarrow> jsstring list \<Rightarrow> error + jsstring list" where
  "commasBefore cfg commaLines =
     (let stripped = map stripTrailingComma commaLines
      in prependLines [hd stripped] (mapResult (commaBeforeLine cfg) (tl stripped)))"

definition alignCommas :: "FormatOptions \<Rightarrow> jsstring list \<Rightarrow> error + jsstring list" where
  "alignCommas cfg commaLines =
     (if commaPosition cfg = Tabular then Inr (tabulateCommas commaLines)
      else if commaPosition cfg = Before then commasBefore cfg commaLines
      else Inr commaLines)"

text \<open>
  The loop over the lines.  \<open>formatCommaLines\<close> is the \<open>for\<close> loop at a position, given
  the lines from there on; \<open>commaRun\<close> is the inner \<open>while\<close> loop, given the lines
  collected so far and the lines after the last one collected.  A run whose last line
  ends in a comma reads the next line, and past the end that read is undefined and its
  \<open>match\<close> a TypeError.  After a run the next line is pushed as it is (past the end it
  is undefined, which \<open>join\<close> renders as the empty text).
\<close>

fun formatCommaLines :: "FormatOptions \<Rightarrow> jsstring list \<Rightarrow> error + jsstring list"
  and commaRun :: "FormatOptions \<Rightarrow> jsstring list \<Rightarrow> jsstring list \<Rightarrow> error + jsstring list" where
  "formatCommaLines cfg [] = Inr []"
| "formatCommaLines cfg (l # ls) =
     (if endsWithComma l then commaRun cfg [l] ls
      else prependLines [l] (formatCommaLines cfg ls))"
| "commaRun cfg commaLines [] =
     (if endsWithComma (last commaLines) then Inl TypeError
      else (case alignCommas cfg commaLines of
              Inl e \<Rightarrow> Inl e
            | Inr aligned \<Rightarrow> Inr (aligned @ [[]])))"
| "commaRun cfg commaLines (l # ls) =
     (if endsWithComma (last commaLines) then commaRun cfg (commaLines @ [l]) ls
      else (case alignCommas cfg commaLines of
              Inl e \<Rightarrow> Inl e
            | Inr aligned \<Rightarrow> prependLines (aligned @ [l]) (formatCommaLines cfg ls)))"

definition formatCommaPositions :: "FormatOptions \<Rightarrow> jsstring \<Rightarrow> error + jsstring" where
  "formatCommaPositions cfg query =
     (case formatCommaLines cfg (splitOn NL query) of
        Inl e \<Rightarrow> Inl e
      | Inr newQuery \<Rightarrow> Inr (joinWith NL newQuery))"

subsection \<open>Alias positions (lines 140-187)\<close>

text \<open>\<open>/^\s*SELECT/i\<close>: without the flag \<open>u\<close> only the two ASCII cases of a letter
  match.\<close>

definition startsWithSelect :: "jsstring \<Rightarrow> bool" where
  "startsWithSelect l = (map upperChar (take 6 (dropWhile isWhitespace l)) = str ''SELECT'')"

text \<open>
  \<open>/^\s*SELECT\s+.+(?!,$)/i\<close>: after SELECT come \<open>j\<close> units of whitespace and then
  \<open>m\<close> units that are no line terminators, not followed by a comma that ends the line.
\<close>

definition selectWithColumns :: "jsstring \<Rightarrow> bool" where
  "selectWithColumns l =
     (startsWithSelect l \<and>
      (let r = drop 6 (dropWhile isWhitespace l) in
       list_ex (\<lambda>j. list_all isWhitespace (take j r) \<and>
                  list_ex (\<lambda>m. list_all (\<lambda>c. \<not> isLineTerminator c) (take m (drop j r)) \<and>
                              drop (j + m) r \<noteq> [COMMA])
                    [1..<Suc (length r - j)])
         [1..<Suc (length r)]))"

text \<open>
  \<open>line.split(/(?<=[^\s]+) (AS )?(?=[^\s]+,?$)/i)\<close>.  The separator is a blank that
  follows a unit that is no whitespace, with \<open>AS\<close> and a blank after it when they are
  there, and what follows the separator is a non-empty text without whitespace up to
  the end of the line.  Such a separator is the only one of its line, so the result
  is the line itself, or the text before, the captured \<open>AS\<close> with its blank (undefined
  when absent) and the text after.
\<close>

definition isAliasText :: "jsstring \<Rightarrow> bool" where
  "isAliasText s = (s \<noteq> [] \<and> list_all (\<lambda>c. \<not> isWhitespace c) s)"

definition startsWithAs :: "jsstring \<Rightarrow> bool" where
  "startsWithAs s = (3 \<le> length s \<and> map upperChar (take 2 s) = str ''AS'' \<and> s ! 2 = SP)"

fun splitAliasFrom :: "jsstring \<Rightarrow> jsstring \<Rightarrow> (jsstring \<times> jsstring option \<times> jsstring) option" where
  "splitAliasFrom preceding [] = None"
| "splitAliasFrom preceding (c # cs) =
     (if c = SP \<and> preceding \<noteq> [] \<and> \<not> isWhitespace (last preceding) then
        (if startsWithAs cs \<and> isAliasText (drop 3 cs)
         then Some (preceding, Some (take 3 cs), drop 3 cs)
         else if isAliasText cs then Some (preceding, None, cs)
         else splitAliasFrom (preceding @ [c]) cs)
      else splitAliasFrom (preceding @ [c]) cs)"

text \<open>The object \<open>{ precedingText, alias, as }\<close> of a line.\<close>

record AliasLine =
  precedingText :: jsstring
  "alias" :: "jsstring option"
  asKeyword :: "jsstring option"

definition splitAliasLine :: "jsstring \<Rightarrow> AliasLine" where
  "splitAliasLine line =
     (case splitAliasFrom [] line of
        None \<Rightarrow> \<lparr>precedingText = line, alias = None, asKeyword = None\<rparr>
      | Some (p, a, r) \<Rightarrow> \<lparr>precedingText = p, alias = Some r, asKeyword = a\<rparr>)"

text \<open>\<open>precedingText.replace(/\s*,\s*$/, '')\<close>: a comma that only whitespace follows is
  removed with the whitespace around it.\<close>

definition stripCommaEnd :: "jsstring \<Rightarrow> jsstring" where
  "stripCommaEnd s =
     (let t = trimEnd s in
      if endsWithComma t then trimEnd (butlast t) else s)"

text \<open>\<open>' '.repeat(n)\<close> is a RangeError for a negative \<open>n\<close>.\<close>

definition alignAliasLine :: "nat \<Rightarrow> AliasLine \<Rightarrow> error + jsstring" where
  "alignAliasLine aliasMaxLength sl =
     (case alias sl of
        None \<Rightarrow> Inr (precedingText sl)
      | Some a \<Rightarrow>
          (let n = int aliasMaxLength - int (length (precedingText sl)) + 1 in
           if n < 0 then Inl RangeError
           else Inr (precedingText sl @ replicate (nat n) SP @
                     (case asKeyword sl of None \<Rightarrow> [] | Some k \<Rightarrow> k) @ a)))"

definition alignAliases :: "jsstring list \<Rightarrow> error + jsstring list" where
  "alignAliases aliasLines =
     (let splitLines = map splitAliasLine aliasLines;
          aliasMaxLength = maxLength (map (\<lambda>sl. stripCommaEnd (precedingText sl)) splitLines)
      in mapResult (alignAliasLine aliasMaxLength) splitLines)"

text \<open>
  The loop over the lines, in the shape of the comma loop.  A SELECT line that ends in a
  comma starts the run itself; one that holds columns of its own is pushed and the loop
  continues; a bare SELECT is pushed and the run starts with the next line (past the
  end that line is undefined and its \<open>match\<close> a TypeError).
\<close>

fun formatAliasLines :: "jsstring list \<Rightarrow> error + jsstring list"
  and aliasRun :: "jsstring list \<Rightarrow> jsstring list \<Rightarrow> error + jsstring list" where
  "formatAliasLines [] = Inr []"
| "formatAliasLines [l] =
     (if startsWithSelect l then
        (if endsWithComma l then aliasRun [l] []
         else if selectWithColumns l then Inr [l]
         else Inl TypeError)
      else Inr [l])"
| "formatAliasLines (l # l1 # ls) =
     (if startsWithSelect l then
        (if endsWithComma l then aliasRun [l] (l1 # ls)
         else if selectWithColumns l then prependLines [l] (formatAliasLines (l1 # ls))
         else prependLines [l] (aliasRun [l1] ls))
      else prependLines [l] (formatAliasLines (l1 # ls)))"
| "aliasRun aliasLines [] =
     (if endsWithComma (last aliasLines) then Inl TypeError
      else (case alignAliases aliasLines of
              Inl e \<Rightarrow> Inl e
            | Inr aligned \<Rightarrow> Inr (aligned @ [[]])))"
| "aliasRun aliasLines (l # ls) =
     (if endsWithComma (last aliasLines) then aliasRun (aliasLines @ [l]) ls
      else (case alignAliases aliasLines of
              Inl e \<Rightarrow> Inl e
            | Inr aligned \<Rightarrow> prependLines (aligned @ [l]) (formatAliasLines ls)))"

definition formatAliasPositions :: "jsstring \<Rightarrow> error + jsstring" where
  "formatAliasPositions query =
     (case formatAliasLines (splitOn NL query) of
        Inl e \<Rightarrow> Inl e
      | Inr newQuery \<Rightarrow> Inr (joinWith NL newQuery))"

subsection \<open>\<open>postFormat\<close> and \<open>format\<close> (lines 76-93)\<close>

definition postFormat :: "FormatOptions \<Rightarrow> jsstring \<Rightarrow> error + jsstring" where
  "postFormat cfg query =
     (case (if tabulateAlias cfg then formatAliasPositions query else Inr query) of
        Inl e \<Rightarrow> Inl e
      | Inr q1 \<Rightarrow>
          (if commaPosition cfg \<noteq> After then formatCommaPositions cfg q1 else Inr q1))"

text \<open>
  \<open>format\<close>, for a formatter fresh from the constructor.  The tokenizer is what the
  subclass supplies through \<open>tokenizer()\<close>; here it is the function from the text to
  its tokens.  \<open>finalQuery.replace(/^\n*/u, '')\<close> drops the leading line breaks.
\<close>

definition format :: "(jsstring \<Rightarrow> Token list) \<Rightarrow> FormatOptions \<Rightarrow> jsstring \<Rightarrow> error + jsstring" where
  "format tokenize cfg query =
     (case getFormattedQueryFromTokens cfg ((newFormatter cfg)\<lparr>tokens := tokenize query\<rparr>) of
        Inl e \<Rightarrow> Inl e
      | Inr formattedQuery \<Rightarrow>
          (case postFormat cfg formattedQuery of
             Inl e \<Rightarrow> Inl e
           | Inr finalQuery \<Rightarrow> Inr (trimEnd (dropWhile (\<lambda>c. c = NL) finalQuery))))"

section \<open>The newline decision as the specification words it\<close>

text \<open>
  The clause span: the tokens after the command up to, and without, the next command,
  binary command or statement separator.
\<close>

definition clauseSpan :: "Token list \<Rightarrow> nat \<Rightarrow> Token list" where
  "clauseSpan toks i = takeWhile (\<lambda>t. \<not> isClauseBoundary t) (drop (i + 1) toks)"











text \<open>The tokens that \<open>show\<close> renders in the configured case.\<close>

definition hasCase :: "Token \<Rightarrow> bool" where
  "hasCase t = (isReserved t \<or> type t = BLOCK_START \<or> type t = BLOCK_END)"


text \<open>A text starts with another: \<open>String.prototype.startsWith\<close>.\<close>

definition startsWith :: "jsstring \<Rightarrow> jsstring \<Rightarrow> bool" where
  "startsWith s p = (take (length p) s = p)"

section \<open>Example inputs\<close>

text \<open>A token as the tokenizer records it: value, kind and the whitespace before it.\<close>

definition mkToken :: "string \<Rightarrow> TokenType \<Rightarrow> string \<Rightarrow> Token" where
  "mkToken v ty w = \<lparr>value = str v, type = ty, key = None, whitespaceBefore = Some (str w)\<rparr>"

definition exampleCfg :: FormatOptions where
  "exampleCfg =
     \<lparr>indent = str ''  '', uppercase = True, keywordPosition = Standard, newline = Always,
      lineWidth = 50, breakBeforeBooleanOperator = True, aliasAs = AliasSelect,
      tabulateAlias = False, commaPosition = After,
      parenOptions = \<lparr>openParenNewline = True, closeParenNewline = True\<rparr>,
      linesBetweenQueries = 1, denseOperators = False, semicolonNewline = False,
      params = \<lparr>positional = [], named = []\<rparr>\<rparr>"

text \<open>The state in which the loop body meets the first token of a token sequence.\<close>

definition startState :: "FormatOptions \<Rightarrow> Token list \<Rightarrow> Formatter" where
  "startState cfg toks = (newFormatter cfg)\<lparr>tokens := toks\<rparr>"

text \<open>\<open>where case when a then b end = 1;\<close>\<close>

definition whereCaseTokens :: "Token list" where
  "whereCaseTokens =
     [mkToken ''where'' RESERVED_COMMAND [], mkToken ''case'' BLOCK_START '' '',
      mkToken ''when'' RESERVED_KEYWORD '' '', mkToken ''a'' WORD '' '',
      mkToken ''then'' RESERVED_KEYWORD '' '', mkToken ''b'' WORD '' '',
      mkToken ''end'' BLOCK_END '' '', mkToken ''='' OPERATOR '' '',
      mkToken ''1'' NUMBER '' '', mkToken '';'' OPERATOR []]"


text \<open>\<open>select a, b from t\<close>\<close>

definition selectListTokens :: "Token list" where
  "selectListTokens =
     [mkToken ''select'' RESERVED_COMMAND [], mkToken ''a'' WORD '' '',
      mkToken '','' OPERATOR [], mkToken ''b'' WORD '' '',
      mkToken ''from'' RESERVED_COMMAND '' '', mkToken ''t'' WORD '' '']"

text \<open>\<open>select * from t where a between 1 and 2\<close>\<close>

definition betweenTokens :: "Token list" where
  "betweenTokens =
     [mkToken ''select'' RESERVED_COMMAND [], mkToken ''*'' OPERATOR '' '',
      mkToken ''from'' RESERVED_COMMAND '' '', mkToken ''t'' WORD '' '',
      mkToken ''where'' RESERVED_COMMAND '' '', mkToken ''a'' WORD '' '',
      mkToken ''between'' RESERVED_KEYWORD '' '', mkToken ''1'' NUMBER '' '',
      mkToken ''and'' RESERVED_LOGICAL_OPERATOR '' '', mkToken ''2'' NUMBER '' '']"

text \<open>\<open>where a between t.b and 2\<close>\<close>

definition qualifiedBetweenTokens :: "Token list" where
  "qualifiedBetweenTokens =
     [mkToken ''where'' RESERVED_COMMAND [], mkToken ''a'' WORD '' '',
      mkToken ''between'' RESERVED_KEYWORD '' '', mkToken ''t'' WORD '' '',
      mkToken ''.'' OPERATOR [], mkToken ''b'' WORD [],
      mkToken ''and'' RESERVED_LOGICAL_OPERATOR '' '', mkToken ''2'' NUMBER '' '']"

text \<open>\<open>select a; select b\<close>\<close>

definition twoStatementTokens :: "Token list" where
  "twoStatementTokens =
     [mkToken ''select'' RESERVED_COMMAND [], mkToken ''a'' WORD '' '',
      mkToken '';'' OPERATOR [], mkToken ''select'' RESERVED_COMMAND '' '',
      mkToken ''b'' WORD '' '']"



text \<open>\<open>select a; (select b)\<close>\<close>

definition parenStatementTokens :: "Token list" where
  "parenStatementTokens =
     [mkToken ''select'' RESERVED_COMMAND [], mkToken ''a'' WORD '' '',
      mkToken '';'' OPERATOR [], mkToken ''('' BLOCK_START '' '',
      mkToken ''select'' RESERVED_COMMAND [], mkToken ''b'' WORD '' '',
      mkToken '')'' BLOCK_END []]"

text \<open>A text given by its lines.\<close>

definition text_of_lines :: "string list \<Rightarrow> jsstring" where
  "text_of_lines ls = joinWith NL (map str ls)"

text \<open>The number of empty lines that follow the first line ending in a separator.\<close>

definition blankLinesAfterSeparator :: "jsstring \<Rightarrow> nat" where
  "blankLinesAfterSeparator s =
     length (takeWhile (\<lambda>l. l = [])
       (drop 1 (dropWhile (\<lambda>l. \<not> endsWith l 59) (splitOn NL s))))"

text \<open>What the loop body writes into the token at the cursor (lines 195-199): a
  reserved token that is no RESERVED_KEYWORD gets the value \<open>tenSpacedToken\<close> assigns.\<close>

definition rewritten :: "FormatOptions \<Rightarrow> Token \<Rightarrow> Token" where
  "rewritten cfg t =
     (if isReserved t \<and> type t \<noteq> RESERVED_KEYWORD then tenSpacedToken cfg t else t)"

section \<open>The runs of the two passes\<close>

text \<open>
  Which lines the comma pass takes into a run: the lines ending in a comma that follow
  one another, and the line after them (the last item).  The line after a run is
  outside it, whatever it ends in.  \<open>inCommaRunAfter\<close> is given the previous line of the
  run.
\<close>

fun inCommaRun :: "jsstring list \<Rightarrow> bool list"
  and inCommaRunAfter :: "jsstring \<Rightarrow> jsstring list \<Rightarrow> bool list" where
  "inCommaRun [] = []"
| "inCommaRun (l # ls) =
     (if endsWithComma l then True # inCommaRunAfter l ls else False # inCommaRun ls)"
| "inCommaRunAfter prev [] = []"
| "inCommaRunAfter prev (l # ls) =
     (if endsWithComma prev then True # inCommaRunAfter l ls else False # inCommaRun ls)"

text \<open>
  Which lines the alias pass takes into a run: from a SELECT line that ends in a comma,
  or from the line after a bare SELECT, the lines up to the first that does not end
  in a comma.
\<close>

fun inAliasRun :: "jsstring list \<Rightarrow> bool list"
  and inAliasRunAfter :: "jsstring \<Rightarrow> jsstring list \<Rightarrow> bool list" where
  "inAliasRun [] = []"
| "inAliasRun [l] = [startsWithSelect l \<and> endsWithComma l]"
| "inAliasRun (l # l1 # ls) =
     (if startsWithSelect l then
        (if endsWithComma l then True # inAliasRunAfter l (l1 # ls)
         else if selectWithColumns l then False # inAliasRun (l1 # ls)
         else False # True # inAliasRunAfter l1 ls)
      else False # inAliasRun (l1 # ls))"
| "inAliasRunAfter prev [] = []"
| "inAliasRunAfter prev (l # ls) =
     (if endsWithComma prev then True # inAliasRunAfter l ls else False # inAliasRun ls)"

section \<open>Properties of the newline decision\<close>







lemma checkNewline_never:
  "newline cfg = Never \<Longrightarrow>
   checkNewline cfg st i = (withinSelect st \<and> list_ex isCaseStart (nextTokens (tokens st) i))"
  by (simp add: checkNewline_def Let_def)

lemma tenSpacedToken_type: "type (tenSpacedToken cfg t) = type t"
  by (simp add: tenSpacedToken_def Let_def)

lemma reprocess_command:
  assumes "type (tokens st ! index st) = RESERVED_COMMAND"
  shows "reprocess cfg st =
           (st\<lparr>tokens := (tokens st)[index st := tenSpacedToken cfg (tokens st ! index st)],
               previousReservedToken := Some (tenSpacedToken cfg (tokens st ! index st)),
               withinSelect := isToken_SELECT (tenSpacedToken cfg (tokens st ! index st))\<rparr>,
            tenSpacedToken cfg (tokens st ! index st))"
  using assms
  by (simp add: reprocess_def Let_def tokenOverride_def isReserved_def tenSpacedToken_type)

lemma formatCommand_frame:
  "currentNewline (fst (formatCommand cfg st t q)) = currentNewline st \<and>
   withinSelect (fst (formatCommand cfg st t q)) = withinSelect st \<and>
   tokens (fst (formatCommand cfg st t q)) = tokens st"
  by (simp add: formatCommand_def Let_def)

lemma formatToken_command:
  assumes "type (tokens st ! index st) = RESERVED_COMMAND"
  shows "formatToken cfg st q =
           Inr (formatCommand cfg
                 ((fst (reprocess cfg st))
                    \<lparr>currentNewline := checkNewline cfg (fst (reprocess cfg st)) (index st)\<rparr>)
                 (snd (reprocess cfg st)) q)"
  using assms
  by (simp add: formatToken_def reprocess_command tenSpacedToken_type)

lemma reprocess_currentNewline:
  "currentNewline (fst (reprocess cfg st)) = currentNewline st"
  by (simp add: reprocess_def Let_def)

lemma formatToken_keeps_decision:
  assumes "formatToken cfg st q = Inr (st', q')"
    and "type (tokens st ! index st) \<noteq> RESERVED_COMMAND"
  shows "currentNewline st' = currentNewline st"
proof -
  obtain st1 t where r: "reprocess cfg st = (st1, t)" by (cases "reprocess cfg st")
  have c: "currentNewline st1 = currentNewline st"
    using reprocess_currentNewline[of cfg st] by (simp add: r)
  have ty: "type t \<noteq> RESERVED_COMMAND"
    using r assms(2)
    by (auto simp: reprocess_def Let_def tokenOverride_def tenSpacedToken_type split: if_splits)
  have "currentNewline st' = currentNewline st1"
    using assms(1) ty
    by (auto simp: formatToken_def r formatBinaryCommand_def formatLogicalOperator_def
        formatBlockStart_def formatBlockEnd_def formatPlaceholder_def formatOperator_def
        formatQuerySeparator_def Let_def split: if_splits prod.splits)
  with c show ?thesis by simp
qed

lemma formatCommand_inline:
  "\<not> currentNewline st \<Longrightarrow>
   snd (formatCommand cfg st t q) =
     addNewline (st\<lparr>indentation := decreaseTopLevel (indentation st)\<rparr>) q @
     equalizeWhitespace (showToken cfg t) @ [SP]"
  by (auto simp: formatCommand_def Let_def)

lemma addNewline_indentation:
  "indentation st = indentation st' \<Longrightarrow> addNewline st q = addNewline st' q"
  by (simp add: addNewline_def)

lemma formatToken_comma_inline:
  assumes "type (tokens st ! index st) = OPERATOR"
    and "value (tokens st ! index st) = str '',''"
    and "\<not> currentNewline st"
  shows "formatToken cfg st q = Inr (st, trimSpacesEnd q @ str '','' @ [SP])"
proof -
  have r: "reprocess cfg st = (st, tokens st ! index st)"
    using assms(1) by (simp add: reprocess_def Let_def tokenOverride_def isReserved_def)
  show ?thesis
    using assms
    by (simp add: formatToken_def r formatOperator_def formatComma_def Let_def showToken_def
        isReserved_def)
qed

lemma formatToken_logical_inline:
  assumes "type (tokens st ! index st) = RESERVED_LOGICAL_OPERATOR"
    and "\<not> currentNewline st"
    and "t = tenSpacedToken cfg (tokens st ! index st)"
  shows "\<exists>st'. \<not> currentNewline st' \<and>
           (formatToken cfg st q = Inr (st', q @ showToken cfg t @ [SP]) \<or>
            formatToken cfg st q = Inr (st', q @ equalizeWhitespace (showToken cfg t) @ [SP]) \<or>
            formatToken cfg st q = Inr (st', q @ showToken cfg t))"
proof -
  obtain st1 where r: "reprocess cfg st = (st1, t)" and c: "\<not> currentNewline st1"
    using assms by (simp add: reprocess_def Let_def tokenOverride_def isReserved_def)
  have ty: "type t = RESERVED_LOGICAL_OPERATOR"
    using assms(1,3) by (simp add: tenSpacedToken_type)
  have f: "formatToken cfg st q = Inr (formatLogicalOperator cfg st1 t q)"
    using ty by (simp add: formatToken_def r)
  let ?r = "formatLogicalOperator cfg st1 t q"
  have n: "\<not> currentNewline (fst ?r)"
    using c by (simp add: formatLogicalOperator_def Let_def)
  have "snd ?r = q @ showToken cfg t @ [SP] \<or>
        snd ?r = q @ equalizeWhitespace (showToken cfg t) @ [SP] \<or>
        snd ?r = q @ showToken cfg t"
    using c by (simp add: formatLogicalOperator_def formatWithSpaces_def Let_def)
  then have "?r = (fst ?r, q @ showToken cfg t @ [SP]) \<or>
             ?r = (fst ?r, q @ equalizeWhitespace (showToken cfg t) @ [SP]) \<or>
             ?r = (fst ?r, q @ showToken cfg t)"
    by (metis prod.collapse)
  with n show ?thesis unfolding f by blast
qed

text \<open>
  C2, as the code has it.  With the newline mode \<open>never\<close>, the loop body at a command
  token returns, and the wrap decision it stores for the clause is true exactly when the
  command is SELECT and the span the heuristic scans holds a block start longer than one
  character (CASE).  When the decision is not to wrap, the handlers that read it put no
  line break into the clause: the command handler goes to a new line for the command
  and leaves the first item on that line, after one blank; the comma handler writes the
  comma and one blank; the handler of a logical operator writes the operator on the
  line.  The decision stays as it is until the next command.
\<close>

theorem never_mode_wraps_only_select_case:
  assumes "newline cfg = Never"
    and "index st < length (tokens st)"
    and "t = tenSpacedToken cfg (tokens st ! index st)"
  shows "(type t = RESERVED_COMMAND \<longrightarrow>
            (\<exists>st' q'. formatToken cfg st q = Inr (st', q') \<and>
               currentNewline st' =
                 (isToken_SELECT t \<and> list_ex isCaseStart (nextTokens (tokens st) (index st))) \<and>
               (\<not> currentNewline st' \<longrightarrow>
                  q' = addNewline (st\<lparr>indentation := decreaseTopLevel (indentation st)\<rparr>) q @
                       equalizeWhitespace (showToken cfg t) @ [SP]))) \<and>
         (type (tokens st ! index st) = OPERATOR \<and> value (tokens st ! index st) = str '','' \<and>
          \<not> currentNewline st \<longrightarrow>
            formatToken cfg st q = Inr (st, trimSpacesEnd q @ str '','' @ [SP])) \<and>
         (type t = RESERVED_LOGICAL_OPERATOR \<and> \<not> currentNewline st \<longrightarrow>
            (\<exists>st'. \<not> currentNewline st' \<and>
               (formatToken cfg st q = Inr (st', q @ showToken cfg t @ [SP]) \<or>
                formatToken cfg st q = Inr (st', q @ equalizeWhitespace (showToken cfg t) @ [SP]) \<or>
                formatToken cfg st q = Inr (st', q @ showToken cfg t)))) \<and>
         (type t \<noteq> RESERVED_COMMAND \<longrightarrow>
            (\<forall>st' q'. formatToken cfg st q = Inr (st', q') \<longrightarrow>
               currentNewline st' = currentNewline st))"
proof (intro conjI impI)
  assume ty: "type t = RESERVED_COMMAND"
  then have ty0: "type (tokens st ! index st) = RESERVED_COMMAND"
    using assms(3) by (simp add: tenSpacedToken_type)
  let ?st1 = "(fst (reprocess cfg st))
                \<lparr>currentNewline := checkNewline cfg (fst (reprocess cfg st)) (index st)\<rparr>"
  let ?r = "formatCommand cfg ?st1 (snd (reprocess cfg st)) q"
  have ft: "formatToken cfg st q = Inr (fst ?r, snd ?r)"
    using formatToken_command[OF ty0] by simp
  have nt: "nextTokens ((tokens st)[index st := x]) (index st) = nextTokens (tokens st) (index st)" for x
    by (simp add: nextTokens_def)
  have tk: "snd (reprocess cfg st) = t"
    using ty0 assms(3) by (simp add: reprocess_command)
  have cn: "currentNewline (fst ?r) =
              (isToken_SELECT t \<and> list_ex isCaseStart (nextTokens (tokens st) (index st)))"
    using assms(1,3) ty0
    by (simp add: formatCommand_frame checkNewline_never reprocess_command nt)
  have ind: "indentation ?st1 = indentation st"
    using ty0 by (simp add: reprocess_command)
  have q: "snd ?r = addNewline (st\<lparr>indentation := decreaseTopLevel (indentation st)\<rparr>) q @
                    equalizeWhitespace (showToken cfg t) @ [SP]"
    if n: "\<not> currentNewline (fst ?r)"
  proof -
    from n have "\<not> currentNewline ?st1" by (simp add: formatCommand_frame)
    from formatCommand_inline[OF this, of cfg t q]
    have "snd ?r = addNewline (?st1\<lparr>indentation := decreaseTopLevel (indentation ?st1)\<rparr>) q @
                   equalizeWhitespace (showToken cfg t) @ [SP]"
      unfolding tk .
    moreover have "addNewline (?st1\<lparr>indentation := decreaseTopLevel (indentation ?st1)\<rparr>) q =
                   addNewline (st\<lparr>indentation := decreaseTopLevel (indentation st)\<rparr>) q"
      by (rule addNewline_indentation) (simp add: ind)
    ultimately show ?thesis by simp
  qed
  from ft cn q
  show "\<exists>st' q'. formatToken cfg st q = Inr (st', q') \<and>
          currentNewline st' =
            (isToken_SELECT t \<and> list_ex isCaseStart (nextTokens (tokens st) (index st))) \<and>
          (\<not> currentNewline st' \<longrightarrow>
             q' = addNewline (st\<lparr>indentation := decreaseTopLevel (indentation st)\<rparr>) q @
                  equalizeWhitespace (showToken cfg t) @ [SP])"
    by blast
next
  assume "type (tokens st ! index st) = OPERATOR \<and> value (tokens st ! index st) = str '','' \<and>
          \<not> currentNewline st"
  then show "formatToken cfg st q = Inr (st, trimSpacesEnd q @ str '','' @ [SP])"
    using formatToken_comma_inline by blast
next
  assume "type t = RESERVED_LOGICAL_OPERATOR \<and> \<not> currentNewline st"
  then have "type (tokens st ! index st) = RESERVED_LOGICAL_OPERATOR" and "\<not> currentNewline st"
    using assms(3) by (simp_all add: tenSpacedToken_type)
  from formatToken_logical_inline[OF this assms(3)]
  show "\<exists>st'. \<not> currentNewline st' \<and>
          (formatToken cfg st q = Inr (st', q @ showToken cfg t @ [SP]) \<or>
           formatToken cfg st q = Inr (st', q @ equalizeWhitespace (showToken cfg t) @ [SP]) \<or>
           formatToken cfg st q = Inr (st', q @ showToken cfg t))" .
next
  assume "type t \<noteq> RESERVED_COMMAND"
  then have "type (tokens st ! index st) \<noteq> RESERVED_COMMAND"
    using assms(3) by (simp add: tenSpacedToken_type)
  then show "\<forall>st' q'. formatToken cfg st q = Inr (st', q') \<longrightarrow>
               currentNewline st' = currentNewline st"
    using formatToken_keeps_decision by blast
qed

theorem never_mode_wraps_only_select_case_witness:
  "newline (exampleCfg\<lparr>newline := Never\<rparr>) = Never \<and>
   index (startState (exampleCfg\<lparr>newline := Never\<rparr>) whereCaseTokens)
     < length (tokens (startState (exampleCfg\<lparr>newline := Never\<rparr>) whereCaseTokens)) \<and>
   type (tenSpacedToken (exampleCfg\<lparr>newline := Never\<rparr>) (whereCaseTokens ! 0)) = RESERVED_COMMAND \<and>
   list_ex isCaseStart (nextTokens whereCaseTokens 0) \<and>
   (\<exists>st'. formatToken (exampleCfg\<lparr>newline := Never\<rparr>)
             (startState (exampleCfg\<lparr>newline := Never\<rparr>) whereCaseTokens) [] =
             Inr (st', [NL] @ str ''WHERE'' @ [SP]) \<and>
           \<not> currentNewline st') \<and>
   type (selectListTokens ! 2) = OPERATOR \<and> value (selectListTokens ! 2) = str '','' \<and>
   formatToken (exampleCfg\<lparr>newline := Never\<rparr>)
     ((startState (exampleCfg\<lparr>newline := Never\<rparr>) selectListTokens)
        \<lparr>index := 2, currentNewline := False\<rparr>) (str ''SELECT a '') =
     Inr ((startState (exampleCfg\<lparr>newline := Never\<rparr>) selectListTokens)
            \<lparr>index := 2, currentNewline := False\<rparr>, str ''SELECT a, '')"
proof -
  let ?cfg = "exampleCfg\<lparr>newline := Never\<rparr>"
  let ?st = "startState ?cfg whereCaseTokens"
  let ?t = "tenSpacedToken ?cfg (tokens ?st ! index ?st)"
  let ?st2 = "(startState ?cfg selectListTokens)\<lparr>index := 2, currentNewline := False\<rparr>"
  let ?t2 = "tenSpacedToken ?cfg (tokens ?st2 ! index ?st2)"
  have h1: "newline ?cfg = Never" by simp
  have h2: "index ?st < length (tokens ?st)" by code_simp
  have i: "tokens ?st ! index ?st = whereCaseTokens ! 0" by code_simp
  have ty: "type ?t = RESERVED_COMMAND" by code_simp
  have cs: "list_ex isCaseStart (nextTokens whereCaseTokens 0)" by code_simp
  have ns: "\<not> isToken_SELECT ?t" by code_simp
  have x: "addNewline (?st\<lparr>indentation := decreaseTopLevel (indentation ?st)\<rparr>) [] @
           equalizeWhitespace (showToken ?cfg ?t) @ [SP] = [NL] @ str ''WHERE'' @ [SP]"
    by code_simp
  from never_mode_wraps_only_select_case[OF h1 h2 refl, of "[]"] ty
  obtain st' q' where f: "formatToken ?cfg ?st [] = Inr (st', q')"
    and c: "currentNewline st' =
              (isToken_SELECT ?t \<and> list_ex isCaseStart (nextTokens (tokens ?st) (index ?st)))"
    and q: "\<not> currentNewline st' \<longrightarrow>
              q' = addNewline (?st\<lparr>indentation := decreaseTopLevel (indentation ?st)\<rparr>) [] @
                   equalizeWhitespace (showToken ?cfg ?t) @ [SP]"
    by blast
  from c ns have n: "\<not> currentNewline st'" by simp
  with q x have "q' = [NL] @ str ''WHERE'' @ [SP]" by simp
  with f n have a: "\<exists>st'. formatToken ?cfg ?st [] = Inr (st', [NL] @ str ''WHERE'' @ [SP]) \<and>
                          \<not> currentNewline st'"
    by blast
  have k2: "index ?st2 < length (tokens ?st2)" by code_simp
  have o: "type (tokens ?st2 ! index ?st2) = OPERATOR" by code_simp
  have v: "value (tokens ?st2 ! index ?st2) = str '',''" by code_simp
  have fl: "\<not> currentNewline ?st2" by simp
  have o': "type (selectListTokens ! 2) = OPERATOR" by code_simp
  have v': "value (selectListTokens ! 2) = str '',''" by code_simp
  have tr: "trimSpacesEnd (str ''SELECT a '') @ str '','' @ [SP] = str ''SELECT a, ''"
    by code_simp
  from never_mode_wraps_only_select_case[OF h1 k2 refl, of "str ''SELECT a ''"] o v fl
  have "formatToken ?cfg ?st2 (str ''SELECT a '') =
          Inr (?st2, trimSpacesEnd (str ''SELECT a '') @ str '','' @ [SP])"
    by blast
  then have b: "formatToken ?cfg ?st2 (str ''SELECT a '') = Inr (?st2, str ''SELECT a, '')"
    unfolding tr .
  have ty': "type (tenSpacedToken ?cfg (whereCaseTokens ! 0)) = RESERVED_COMMAND" by code_simp
  show ?thesis by (intro conjI h1 h2 ty' cs a o' v' b)
qed

text \<open>
  C2 as the specification states it fails: in the WHERE clause of
  \<open>where case when a then b end = 1;\<close> the span holds a CASE block, the mode is
  \<open>never\<close>, and the loop body stores the decision not to wrap.
\<close>

theorem never_mode_case_outside_select_counterexample:
  "newline (exampleCfg\<lparr>newline := Never\<rparr>) = Never \<and>
   list_ex isToken_CASE (clauseSpan whereCaseTokens 0) \<and>
   \<not> isl (formatToken (exampleCfg\<lparr>newline := Never\<rparr>)
            (startState (exampleCfg\<lparr>newline := Never\<rparr>) whereCaseTokens) []) \<and>
   \<not> currentNewline (fst (projr (formatToken (exampleCfg\<lparr>newline := Never\<rparr>)
            (startState (exampleCfg\<lparr>newline := Never\<rparr>) whereCaseTokens) [])))"
  by code_simp






section \<open>What the token loop does to the tokens\<close>

lemma tenSpacedToken_standard: "\<not> tenSpace cfg \<Longrightarrow> tenSpacedToken cfg t = t"
  by (simp add: tenSpacedToken_def)

lemma rewritten_type: "type (rewritten cfg t) = type t"
  by (simp add: rewritten_def tenSpacedToken_type)

lemma rewritten_standard: "\<not> tenSpace cfg \<Longrightarrow> rewritten cfg t = t"
  by (simp add: rewritten_def tenSpacedToken_standard)

lemma reprocess_tokens:
  "index st < length (tokens st) \<Longrightarrow>
   tokens (fst (reprocess cfg st)) = (tokens st)[index st := rewritten cfg (tokens st ! index st)]"
  by (simp add: reprocess_def Let_def tokenOverride_def rewritten_def)

lemma reprocess_token:
  "snd (reprocess cfg st) = rewritten cfg (tokens st ! index st)"
  by (simp add: reprocess_def Let_def tokenOverride_def rewritten_def)

lemma reprocess_frame:
  "index (fst (reprocess cfg st)) = index st \<and>
   indentation (fst (reprocess cfg st)) = indentation st \<and>
   currentNewline (fst (reprocess cfg st)) = currentNewline st"
  by (simp add: reprocess_def Let_def)

lemma formatBinaryCommand_tokens: "tokens (fst (formatBinaryCommand cfg st t q)) = tokens st"
  by (simp add: formatBinaryCommand_def Let_def)

lemma formatLogicalOperator_tokens: "tokens (fst (formatLogicalOperator cfg st t q)) = tokens st"
  by (simp add: formatLogicalOperator_def Let_def)

lemma formatBlockStart_tokens: "tokens (fst (formatBlockStart cfg st t q)) = tokens st"
  by (simp add: formatBlockStart_def Let_def split: prod.splits)

lemma formatBlockEnd_tokens: "tokens (fst (formatBlockEnd cfg st t q)) = tokens st"
  by (simp add: formatBlockEnd_def Let_def)

lemma formatPlaceholder_tokens: "tokens (fst (formatPlaceholder st t q)) = tokens st"
  by (simp add: formatPlaceholder_def Let_def split: prod.splits)

lemma formatOperator_tokens:
  "formatOperator cfg st t q = Inr (st', q') \<Longrightarrow> tokens st' = tokens st"
  by (auto simp: formatOperator_def formatQuerySeparator_def Let_def split: if_splits)

lemma formatToken_tokens:
  assumes "formatToken cfg st q = Inr (st', q')"
  shows "tokens st' = tokens (fst (reprocess cfg st))"
proof -
  obtain st1 t where r: "reprocess cfg st = (st1, t)" by (cases "reprocess cfg st")
  show ?thesis
    using assms formatCommand_frame[of cfg "st1\<lparr>currentNewline := checkNewline cfg st1 (index st1)\<rparr>" t q]
      formatBinaryCommand_tokens[of cfg st1 t q] formatLogicalOperator_tokens[of cfg st1 t q]
      formatBlockStart_tokens[of cfg st1 t q] formatBlockEnd_tokens[of cfg st1 t q]
      formatPlaceholder_tokens[of st1 t q] formatOperator_tokens[of cfg st1 t q st' q']
    by (auto simp: formatToken_def r split: if_splits)
qed

lemma formatToken_writes:
  assumes "formatToken cfg (st\<lparr>index := k\<rparr>) q = Inr (st', q')" and "k < length (tokens st)"
  shows "tokens st' = (tokens st)[k := rewritten cfg (tokens st ! k)]"
  using formatToken_tokens[OF assms(1)] reprocess_tokens[of "st\<lparr>index := k\<rparr>" cfg] assms(2)
  by simp

lemma formatTokens_from:
  "formatTokens cfg [k..<length (tokens st)] st q = Inr (st', q') \<Longrightarrow>
   tokens st' = take k (tokens st) @ map (rewritten cfg) (drop k (tokens st))"
proof (induction "length (tokens st) - k" arbitrary: k st q)
  case 0
  then show ?case by simp
next
  case (Suc d)
  then have k: "k < length (tokens st)" by simp
  then have upt: "[k..<length (tokens st)] = k # [Suc k..<length (tokens st)]"
    by (simp add: upt_rec)
  from Suc.prems upt obtain st1 q1 where
    step: "formatToken cfg (st\<lparr>index := k\<rparr>) q = Inr (st1, q1)" and
    rest: "formatTokens cfg [Suc k..<length (tokens st)] st1 q1 = Inr (st', q')"
    by (auto split: sum.splits)
  have w: "tokens st1 = (tokens st)[k := rewritten cfg (tokens st ! k)]"
    using formatToken_writes[OF step k] .
  then have len: "length (tokens st1) = length (tokens st)" by simp
  have d: "d = length (tokens st1) - Suc k" using Suc.hyps(2) len by simp
  from Suc.hyps(1)[OF d, of q1] rest len
  have "tokens st' = take (Suc k) (tokens st1) @ map (rewritten cfg) (drop (Suc k) (tokens st1))"
    by simp
  also have "take (Suc k) (tokens st1) = take k (tokens st) @ [rewritten cfg (tokens st ! k)]"
    using k by (simp add: w take_Suc_conv_app_nth)
  also have "drop (Suc k) (tokens st1) = drop (Suc k) (tokens st)"
    by (simp add: w)
  finally show ?case
    using k by (simp add: Cons_nth_drop_Suc[symmetric])
qed

text \<open>
  C8, as the code has it.  A run of the token loop that returns leaves the token array
  with the same tokens in the same order and with the kind of every token unchanged, but
  it writes into the array: each reserved token other than a RESERVED_KEYWORD holds
  afterwards the value \<open>tenSpacedToken\<close> assigned to it.  Outside the ten-space modes
  that assignment changes nothing and the array is as it was.
\<close>

theorem token_loop_keeps_kinds:
  assumes "runTokenLoop cfg st = Inr (st', q)"
  shows "tokens st' = map (rewritten cfg) (tokens st) \<and>
         map type (tokens st') = map type (tokens st) \<and>
         (\<not> tenSpace cfg \<longrightarrow> tokens st' = tokens st)"
proof -
  from assms have "tokens st' = map (rewritten cfg) (tokens st)"
    using formatTokens_from[of cfg 0 st "[]" st' q] by (simp add: runTokenLoop_def)
  moreover have "map type (map (rewritten cfg) (tokens st)) = map type (tokens st)"
    by (simp add: rewritten_type comp_def)
  moreover have "\<not> tenSpace cfg \<Longrightarrow> map (rewritten cfg) (tokens st) = tokens st"
    by (simp add: rewritten_standard map_idI)
  ultimately show ?thesis by simp
qed

theorem token_loop_keeps_kinds_witness:
  "runTokenLoop (exampleCfg\<lparr>keywordPosition := TenSpaceLeft\<rparr>)
     (startState (exampleCfg\<lparr>keywordPosition := TenSpaceLeft\<rparr>) selectListTokens)
     = Inr (fst (projr (runTokenLoop (exampleCfg\<lparr>keywordPosition := TenSpaceLeft\<rparr>)
                  (startState (exampleCfg\<lparr>keywordPosition := TenSpaceLeft\<rparr>) selectListTokens))),
            snd (projr (runTokenLoop (exampleCfg\<lparr>keywordPosition := TenSpaceLeft\<rparr>)
                  (startState (exampleCfg\<lparr>keywordPosition := TenSpaceLeft\<rparr>) selectListTokens)))) \<and>
   map type (tokens (fst (projr (runTokenLoop (exampleCfg\<lparr>keywordPosition := TenSpaceLeft\<rparr>)
                  (startState (exampleCfg\<lparr>keywordPosition := TenSpaceLeft\<rparr>) selectListTokens)))))
     = map type selectListTokens"
proof -
  let ?cfg = "exampleCfg\<lparr>keywordPosition := TenSpaceLeft\<rparr>"
  let ?st = "startState ?cfg selectListTokens"
  have r: "\<not> isl (runTokenLoop ?cfg ?st)" by code_simp
  then have h: "runTokenLoop ?cfg ?st =
      Inr (fst (projr (runTokenLoop ?cfg ?st)), snd (projr (runTokenLoop ?cfg ?st)))"
    by (cases "runTokenLoop ?cfg ?st") auto
  have t: "tokens ?st = selectListTokens" by (simp add: startState_def)
  have m: "map type (tokens (fst (projr (runTokenLoop ?cfg ?st)))) = map type (tokens ?st)"
    using token_loop_keeps_kinds[OF h] by blast
  have m': "map type (tokens (fst (projr (runTokenLoop ?cfg ?st)))) = map type selectListTokens"
    using m unfolding t .
  show ?thesis using h m' by (rule conjI)
qed

text \<open>
  C8 as the specification states it fails: in the mode \<open>tenSpaceLeft\<close> the run over
  \<open>select a, b from t\<close> leaves the first token of the array with the value
  \<open>select\<close> followed by three zero-width spaces.
\<close>

theorem token_written_in_place_counterexample:
  "value (tokens (fst (projr (runTokenLoop (exampleCfg\<lparr>keywordPosition := TenSpaceLeft\<rparr>)
       (startState (exampleCfg\<lparr>keywordPosition := TenSpaceLeft\<rparr>) selectListTokens)))) ! 0)
     = str ''select'' @ [ZWS, ZWS, ZWS] \<and>
   value (selectListTokens ! 0) = str ''select'' \<and>
   tokens (fst (projr (runTokenLoop (exampleCfg\<lparr>keywordPosition := TenSpaceLeft\<rparr>)
       (startState (exampleCfg\<lparr>keywordPosition := TenSpaceLeft\<rparr>) selectListTokens))))
     \<noteq> selectListTokens"
  by code_simp

section \<open>BETWEEN ... AND\<close>

lemma tokenLookBehind_reprocess:
  assumes "index st < length (tokens st)" and "0 < n"
  shows "tokenLookBehind (fst (reprocess cfg st)) n = tokenLookBehind st n"
  using assms
  by (auto simp: tokenLookBehind_def tokenAt_def reprocess_tokens reprocess_frame)

lemma formatLogicalOperator_between:
  assumes "isToken_AND token" and "isToken_BETWEEN (tokenLookBehind st 2)"
  shows "formatLogicalOperator cfg st token query = (st, query @ showToken cfg token @ [SP])"
  using assms by (simp add: formatLogicalOperator_def formatWithSpaces_def)

lemma formatToken_logical:
  assumes "type (tokens st ! index st) = RESERVED_LOGICAL_OPERATOR"
  shows "formatToken cfg st q =
           Inr (formatLogicalOperator cfg (fst (reprocess cfg st)) (snd (reprocess cfg st)) q)"
  using assms
  by (simp add: formatToken_def reprocess_def Let_def tokenOverride_def isReserved_def
      tenSpacedToken_type)

text \<open>
  C6, as the code has it.  When the token two positions before a logical operator AND
  is the keyword BETWEEN, that is when BETWEEN's first operand is a single token, the
  loop body appends the operator's text and one blank to the query and nothing else: no
  line break, and the indentation is left as it was.  The tokens of
  \<open>select * from t where a between 1 and 2\<close> are rendered with
  \<open>a BETWEEN 1 AND 2\<close> on one line.
\<close>

theorem between_and_stays_inline:
  assumes "index st < length (tokens st)"
    and "type (tokens st ! index st) = RESERVED_LOGICAL_OPERATOR"
    and "isToken_AND (rewritten cfg (tokens st ! index st))"
    and "isToken_BETWEEN (tokenLookBehind st 2)"
  shows "(\<exists>st'. formatToken cfg st q =
            Inr (st', q @ showToken cfg (rewritten cfg (tokens st ! index st)) @ [SP]) \<and>
            indentation st' = indentation st) \<and>
         getFormattedQueryFromTokens exampleCfg (startState exampleCfg betweenTokens) =
           Inr (text_of_lines ['''', ''SELECT'', ''  *'', ''FROM'', ''  t'', ''WHERE'',
                               ''  a BETWEEN 1 AND 2 ''])"
proof
  have b: "isToken_BETWEEN (tokenLookBehind (fst (reprocess cfg st)) 2)"
    using assms(1,4) by (simp add: tokenLookBehind_reprocess)
  have a: "isToken_AND (snd (reprocess cfg st))"
    using assms(3) by (simp add: reprocess_token)
  have "formatToken cfg st q =
          Inr (fst (reprocess cfg st),
               q @ showToken cfg (rewritten cfg (tokens st ! index st)) @ [SP])"
    using formatToken_logical[OF assms(2)] formatLogicalOperator_between[OF a b]
    by (simp add: reprocess_token)
  then show "\<exists>st'. formatToken cfg st q =
            Inr (st', q @ showToken cfg (rewritten cfg (tokens st ! index st)) @ [SP]) \<and>
            indentation st' = indentation st"
    using reprocess_frame by blast
  show "getFormattedQueryFromTokens exampleCfg (startState exampleCfg betweenTokens) =
           Inr (text_of_lines ['''', ''SELECT'', ''  *'', ''FROM'', ''  t'', ''WHERE'',
                               ''  a BETWEEN 1 AND 2 ''])"
    by code_simp
qed

theorem between_and_stays_inline_witness:
  "index ((startState exampleCfg betweenTokens)\<lparr>index := 8\<rparr>)
     < length (tokens ((startState exampleCfg betweenTokens)\<lparr>index := 8\<rparr>)) \<and>
   type (tokens ((startState exampleCfg betweenTokens)\<lparr>index := 8\<rparr>) !
         index ((startState exampleCfg betweenTokens)\<lparr>index := 8\<rparr>)) = RESERVED_LOGICAL_OPERATOR \<and>
   isToken_AND (rewritten exampleCfg (tokens ((startState exampleCfg betweenTokens)\<lparr>index := 8\<rparr>) !
         index ((startState exampleCfg betweenTokens)\<lparr>index := 8\<rparr>))) \<and>
   isToken_BETWEEN (tokenLookBehind ((startState exampleCfg betweenTokens)\<lparr>index := 8\<rparr>) 2) \<and>
   (\<exists>st'. formatToken exampleCfg ((startState exampleCfg betweenTokens)\<lparr>index := 8\<rparr>) (str ''x = 1 '') =
            Inr (st', str ''x = 1 '' @
                      showToken exampleCfg (rewritten exampleCfg
                         (tokens ((startState exampleCfg betweenTokens)\<lparr>index := 8\<rparr>) !
                          index ((startState exampleCfg betweenTokens)\<lparr>index := 8\<rparr>))) @ [SP]) \<and>
            indentation st' = indentation ((startState exampleCfg betweenTokens)\<lparr>index := 8\<rparr>))"
proof -
  let ?st = "(startState exampleCfg betweenTokens)\<lparr>index := 8\<rparr>"
  have h1: "index ?st < length (tokens ?st)" by code_simp
  have h2: "type (tokens ?st ! index ?st) = RESERVED_LOGICAL_OPERATOR" by code_simp
  have h3: "isToken_AND (rewritten exampleCfg (tokens ?st ! index ?st))" by code_simp
  have h4: "isToken_BETWEEN (tokenLookBehind ?st 2)" by code_simp
  from between_and_stays_inline[OF h1 h2 h3 h4, of "str ''x = 1 ''"]
  have "\<exists>st'. formatToken exampleCfg ?st (str ''x = 1 '') =
            Inr (st', str ''x = 1 '' @
                      showToken exampleCfg (rewritten exampleCfg (tokens ?st ! index ?st)) @ [SP]) \<and>
            indentation st' = indentation ?st"
    by (rule conjunct1)
  with h1 h2 h3 h4 show ?thesis by blast
qed

text \<open>
  C6 as the specification states it fails: in \<open>where a between t.b and 2\<close> the first
  operand of BETWEEN is three tokens, the token two positions before AND is the
  operator \<open>.\<close>, and AND starts a new line.
\<close>

theorem between_qualified_operand_counterexample:
  "getFormattedQueryFromTokens exampleCfg (startState exampleCfg qualifiedBetweenTokens) =
     Inr (text_of_lines ['''', ''WHERE'', ''  a BETWEEN t.b'', ''  AND 2 ''])"
  by code_simp

section \<open>The statement separator\<close>


lemma trimSpacesEnd_blanks:
  "\<forall>c\<in>set b. c = SP \<or> c = TAB \<Longrightarrow> trimSpacesEnd (x @ b) = trimSpacesEnd x"
  by (simp add: trimSpacesEnd_def dropWhile_append)

lemma trimSpacesEnd_rest: "\<exists>b. y = trimSpacesEnd y @ b"
proof -
  have "rev y = takeWhile (\<lambda>c. c = SP \<or> c = TAB) (rev y) @ dropWhile (\<lambda>c. c = SP \<or> c = TAB) (rev y)"
    by simp
  then have "y = rev (dropWhile (\<lambda>c. c = SP \<or> c = TAB) (rev y)) @
                 rev (takeWhile (\<lambda>c. c = SP \<or> c = TAB) (rev y))"
    by (metis rev_append rev_rev_ident)
  then show ?thesis unfolding trimSpacesEnd_def by blast
qed

lemma addNewline_trimmed: "\<exists>z. addNewline st q = trimSpacesEnd q @ z"
  by (cases "endsWith (trimSpacesEnd q) NL") (simp_all add: addNewline_def Let_def)

lemma addNewline_after_break:
  assumes "endsWith q NL" and "getIndent (indentation st) = []"
  shows "addNewline st q = q"
proof -
  from assms(1) obtain p where q: "q = p @ [NL]"
    by (cases q rule: rev_cases) (auto simp: endsWith_def)
  have "trimSpacesEnd q = q"
    by (simp add: q trimSpacesEnd_def NL_def SP_def TAB_def)
  with assms show ?thesis by (simp add: addNewline_def Let_def)
qed

lemma trimSpacesEnd_after:
  assumes "trimSpacesEnd p = p"
  shows "trimSpacesEnd (p @ y) = p @ trimSpacesEnd y"
proof (cases "\<forall>c\<in>set y. c = SP \<or> c = TAB")
  case True
  then have "trimSpacesEnd y = []" by (simp add: trimSpacesEnd_def)
  moreover from True have "trimSpacesEnd (p @ y) = trimSpacesEnd p"
    by (rule trimSpacesEnd_blanks)
  ultimately show ?thesis using assms by simp
next
  case False
  then have "\<not> (\<forall>c\<in>set (rev y). c = SP \<or> c = TAB)" by simp
  then have "dropWhile (\<lambda>c. c = SP \<or> c = TAB) (rev y @ rev p) =
             dropWhile (\<lambda>c. c = SP \<or> c = TAB) (rev y) @ rev p"
    by (simp only: dropWhile_append if_False)
  then show ?thesis by (simp add: trimSpacesEnd_def)
qed

lemma startsWith_iff: "startsWith s p \<longleftrightarrow> (\<exists>rest. s = p @ rest)"
proof
  assume "startsWith s p"
  then have "s = p @ drop (length p) s"
    unfolding startsWith_def by (metis append_take_drop_id)
  then show "\<exists>rest. s = p @ rest" by blast
next
  assume "\<exists>rest. s = p @ rest"
  then show "startsWith s p" by (auto simp: startsWith_def)
qed

lemma startsWith_self: "startsWith p p"
  by (simp add: startsWith_def)

lemma startsWith_append: "startsWith s p \<Longrightarrow> startsWith (s @ y) p"
  unfolding startsWith_iff by auto

lemma startsWith_Cons_append: "startsWith s p \<Longrightarrow> startsWith (s @ c # y) p"
  unfolding startsWith_iff by auto

lemma startsWith_trimSpacesEnd:
  "trimSpacesEnd p = p \<Longrightarrow> startsWith s p \<Longrightarrow> startsWith (trimSpacesEnd s) p"
  unfolding startsWith_iff using trimSpacesEnd_after by blast

lemma startsWith_addNewline:
  assumes "trimSpacesEnd p = p" and "startsWith s p"
  shows "startsWith (addNewline st s) p"
proof -
  obtain z where "addNewline st s = trimSpacesEnd s @ z" using addNewline_trimmed by blast
  with startsWith_append[OF startsWith_trimSpacesEnd[OF assms]] show ?thesis by simp
qed

lemmas startsWith_intros =
  startsWith_self startsWith_append startsWith_Cons_append startsWith_trimSpacesEnd
  startsWith_addNewline

lemma NL_notin_collapseWhitespace: "NL \<notin> set (collapseWhitespace b s)"
  by (induction b s rule: collapseWhitespace.induct)
    (auto simp: isWhitespace_def NL_def SP_def)

lemma NL_notin_equalizeWhitespace: "NL \<notin> set (equalizeWhitespace s)"
  by (simp add: equalizeWhitespace_def NL_notin_collapseWhitespace)

lemma formatToken_separator:
  assumes "type (tokens st ! index st) = OPERATOR"
    and "value (tokens st ! index st) = str '';''"
    and "formatToken cfg st q = Inr (st1, q1)"
  shows "st1 = st\<lparr>indentation := resetIndentation (indentation st)\<rparr> \<and>
         q1 = (if semicolonNewline cfg
               then (if tenSpace cfg then trimSpacesEnd q @ [NL] @ indent cfg
                     else trimSpacesEnd q @ [NL])
               else trimSpacesEnd q) @ str '';'' @
              replicate (nat ((if linesBetweenQueries cfg = 0 then 1
                               else linesBetweenQueries cfg) + 1)) NL"
proof -
  have r: "reprocess cfg st = (st, tokens st ! index st)"
    using assms(1) by (simp add: reprocess_def Let_def tokenOverride_def isReserved_def)
  have c: "str '';'' \<noteq> str '',''" by (simp add: str_def)
  have s: "showToken cfg (tokens st ! index st) = str '';''"
    using assms(1,2) by (simp add: showToken_def isReserved_def)
  from assms have "formatQuerySeparator cfg st (tokens st ! index st) q = Inr (st1, q1)"
    by (simp add: formatToken_def r formatOperator_def c)
  then show ?thesis
    by (auto simp: formatQuerySeparator_def Let_def s repeat_def split: if_splits)
qed

lemma trimSpacesEnd_last: "c \<noteq> SP \<Longrightarrow> c \<noteq> TAB \<Longrightarrow> trimSpacesEnd (x @ [c]) = x @ [c]"
  by (simp add: trimSpacesEnd_def)

lemma separator_text_untrimmed:
  "trimSpacesEnd (h @ str '';'' @ replicate k NL) = h @ str '';'' @ replicate k NL"
proof (cases k)
  case 0
  have "trimSpacesEnd (h @ [59]) = h @ [59]"
    by (rule trimSpacesEnd_last) (simp_all add: SP_def TAB_def)
  then show ?thesis unfolding 0 by (simp add: str_def)
next
  case (Suc m)
  have e: "h @ str '';'' @ replicate (Suc m) NL = (h @ str '';'' @ replicate m NL) @ [NL]"
    by (simp add: replicate_append_same)
  have "trimSpacesEnd ((h @ str '';'' @ replicate m NL) @ [NL]) =
        (h @ str '';'' @ replicate m NL) @ [NL]"
    by (rule trimSpacesEnd_last) (simp_all add: NL_def SP_def TAB_def)
  then show ?thesis unfolding Suc e .
qed

lemma formatToken_keeps_text:
  assumes "formatToken cfg st p = Inr (st', q')"
    and "trimSpacesEnd p = p"
    and "reprocess cfg st = (st1, t)"
    and "type t = BLOCK_START \<and> \<not> isToken_CASE t \<longrightarrow> openParenNewline (parenOptions cfg)"
    and "type t = BLOCK_END \<longrightarrow> closeParenNewline (parenOptions cfg)"
  shows "startsWith q' p"
proof -
  note n = assms(2)
  note sw = startsWith_intros
  show ?thesis
  proof (cases "type t")
    case WORD
    with assms(1) show ?thesis
      by (auto simp: formatToken_def assms(3) formatAliases_def formatWithSpaces_def Let_def sw)
  next
    case STRING
    with assms(1) show ?thesis
      by (auto simp: formatToken_def assms(3) formatAliases_def formatWithSpaces_def Let_def sw)
  next
    case RESERVED_KEYWORD
    with assms(1) show ?thesis
      by (auto simp: formatToken_def assms(3) formatKeyword_def formatWithSpaces_def Let_def sw)
  next
    case RESERVED_LOGICAL_OPERATOR
    with assms(1) show ?thesis
      by (auto simp: formatToken_def assms(3) formatLogicalOperator_def formatWithSpaces_def
          Let_def sw n split: if_splits)
  next
    case RESERVED_DEPENDENT_CLAUSE
    with assms(1) show ?thesis
      by (auto simp: formatToken_def assms(3) formatDependentClause_def sw n)
  next
    case RESERVED_BINARY_COMMAND
    with assms(1) show ?thesis
      by (auto simp: formatToken_def assms(3) formatBinaryCommand_def Let_def sw n
          split: if_splits)
  next
    case RESERVED_COMMAND
    with assms(1) show ?thesis
      by (auto simp: formatToken_def assms(3) formatCommand_def Let_def sw n split: if_splits)
  next
    case OPERATOR
    with assms(1) show ?thesis
      by (auto simp: formatToken_def assms(3) formatOperator_def formatComma_def
          formatQuerySeparator_def formatWithSpaces_def formatWithoutSpaces_def Let_def sw n
          split: if_splits)
  next
    case BLOCK_START
    with assms(1,4) show ?thesis
      by (auto simp: formatToken_def assms(3) formatBlockStart_def formatWithSpaces_def
          Let_def sw n split: if_splits)
  next
    case BLOCK_END
    with assms(1,5) show ?thesis
      by (auto simp: formatToken_def assms(3) formatBlockEnd_def formatWithSpaces_def
          Let_def sw n split: if_splits)
  next
    case LINE_COMMENT
    with assms(1) show ?thesis
      by (auto simp: formatToken_def assms(3) formatLineComment_def sw n)
  next
    case BLOCK_COMMENT
    with assms(1) show ?thesis
      by (auto simp: formatToken_def assms(3) formatBlockComment_def sw n)
  next
    case NUMBER
    with assms(1) show ?thesis
      by (auto simp: formatToken_def assms(3) formatAliases_def formatWithSpaces_def Let_def sw)
  next
    case PLACEHOLDER
    with assms(1) show ?thesis
      by (auto simp: formatToken_def assms(3) formatPlaceholder_def Let_def sw
          split: prod.splits)
  qed
qed

lemma formatCommand_after_break:
  assumes "endsWith q NL"
    and "getIndent (decreaseTopLevel (indentation st)) = []"
  shows "\<exists>post. snd (formatCommand cfg st t q) =
           q @ trimSpacesEnd (equalizeWhitespace (showToken cfg t)) @ post"
proof -
  let ?e = "equalizeWhitespace (showToken cfg t)"
  let ?st1 = "st\<lparr>indentation := decreaseTopLevel (indentation st)\<rparr>"
  from assms(1) obtain p where q: "q = p @ [NL]"
    by (cases q rule: rev_cases) (auto simp: endsWith_def)
  have n: "trimSpacesEnd q = q"
    unfolding q by (rule trimSpacesEnd_last) (simp_all add: NL_def SP_def TAB_def)
  have a: "addNewline ?st1 q = q"
    using assms by (intro addNewline_after_break) simp_all
  obtain b where b: "?e = trimSpacesEnd ?e @ b" using trimSpacesEnd_rest by blast
  have l: "\<exists>post. addNewline st' (q @ ?e) = q @ trimSpacesEnd ?e @ post" for st'
  proof -
    obtain z where "addNewline st' (q @ ?e) = trimSpacesEnd (q @ ?e) @ z"
      using addNewline_trimmed by blast
    then show ?thesis by (simp add: trimSpacesEnd_after[OF n])
  qed
  have r: "\<exists>post. (q @ ?e) @ [SP] = q @ trimSpacesEnd ?e @ post"
    using b by (metis append.assoc)
  show ?thesis
    using l r by (simp add: formatCommand_def Let_def a)
qed

text \<open>
  C7, as the code has it.  At a separator the loop body writes the separator and then
  \<open>(n || 1) + 1\<close> line breaks, \<open>n\<close> being the configured count.  The handler of the next
  token keeps them: the text it returns starts with the text up to and including these
  line breaks, unless the token is an opening parenthesis and \<open>openParenNewline\<close> is off,
  or a closing one and \<open>closeParenNewline\<close> is off (these handlers trim all whitespace at
  the end of the text).  When the next token is a command and the count is not negative,
  the command's text, which holds no line break, follows the line breaks directly.
\<close>

theorem separator_blank_lines:
  assumes "type (tokens st ! index st) = OPERATOR"
    and "value (tokens st ! index st) = str '';''"
    and "formatToken cfg st q = Inr (st1, q1)"
    and "Suc (index st) < length (tokens st)"
    and "formatToken cfg (st1\<lparr>index := Suc (index st)\<rparr>) q1 = Inr (st2, q2)"
    and "t2 = rewritten cfg (tokens st ! Suc (index st))"
  shows "q1 = (if semicolonNewline cfg
               then (if tenSpace cfg then trimSpacesEnd q @ [NL] @ indent cfg
                     else trimSpacesEnd q @ [NL])
               else trimSpacesEnd q) @ str '';'' @
              replicate (nat ((if linesBetweenQueries cfg = 0 then 1
                               else linesBetweenQueries cfg) + 1)) NL \<and>
         ((type t2 = BLOCK_START \<and> \<not> isToken_CASE t2 \<longrightarrow> openParenNewline (parenOptions cfg)) \<and>
          (type t2 = BLOCK_END \<longrightarrow> closeParenNewline (parenOptions cfg)) \<longrightarrow>
            startsWith q2 q1) \<and>
         (type t2 = RESERVED_COMMAND \<and> 0 \<le> linesBetweenQueries cfg \<longrightarrow>
            (\<exists>post. q2 = q1 @ trimSpacesEnd (equalizeWhitespace (showToken cfg t2)) @ post) \<and>
            NL \<notin> set (equalizeWhitespace (showToken cfg t2)))"
proof (intro conjI impI)
  let ?head = "(if semicolonNewline cfg
                then (if tenSpace cfg then trimSpacesEnd q @ [NL] @ indent cfg
                      else trimSpacesEnd q @ [NL])
                else trimSpacesEnd q)"
  let ?k = "nat ((if linesBetweenQueries cfg = 0 then 1 else linesBetweenQueries cfg) + 1)"
  let ?s2 = "st1\<lparr>index := Suc (index st)\<rparr>"
  from formatToken_separator[OF assms(1,2,3)]
  have st1: "st1 = st\<lparr>indentation := resetIndentation (indentation st)\<rparr>"
    and q1: "q1 = ?head @ str '';'' @ replicate ?k NL"
    by simp_all
  show "q1 = ?head @ str '';'' @ replicate ?k NL" by (rule q1)
  have n: "trimSpacesEnd q1 = q1" unfolding q1 by (rule separator_text_untrimmed)
  have tk: "tokens ?s2 ! index ?s2 = tokens st ! Suc (index st)" by (simp add: st1)
  obtain s3 where r: "reprocess cfg ?s2 = (s3, t2)"
    using reprocess_token[of cfg ?s2] assms(6) tk by (cases "reprocess cfg ?s2") simp
  {
    assume "(type t2 = BLOCK_START \<and> \<not> isToken_CASE t2 \<longrightarrow> openParenNewline (parenOptions cfg)) \<and>
            (type t2 = BLOCK_END \<longrightarrow> closeParenNewline (parenOptions cfg))"
    then show "startsWith q2 q1"
      using formatToken_keeps_text[OF assms(5) n r] by blast
  }
  {
    assume c: "type t2 = RESERVED_COMMAND \<and> 0 \<le> linesBetweenQueries cfg"
    then have ty: "type (tokens ?s2 ! index ?s2) = RESERVED_COMMAND"
      using assms(6) tk by (simp add: rewritten_type)
    let ?x = "(fst (reprocess cfg ?s2))
                \<lparr>currentNewline := checkNewline cfg (fst (reprocess cfg ?s2)) (index ?s2)\<rparr>"
    from formatToken_command[OF ty, of cfg q1] assms(5)
    have "formatCommand cfg ?x (snd (reprocess cfg ?s2)) q1 = (st2, q2)" by simp
    then have q2: "q2 = snd (formatCommand cfg ?x t2 q1)" by (simp add: r)
    have "indentation ?x = resetIndentation (indentation st)"
      using reprocess_frame[of cfg ?s2] by (simp add: st1)
    then have i: "getIndent (decreaseTopLevel (indentation ?x)) = []"
      by (simp add: getIndent_def decreaseTopLevel_def resetIndentation_def repeat_def)
    from c have "?k = Suc (nat ((if linesBetweenQueries cfg = 0 then 1
                                 else linesBetweenQueries cfg)))"
      by auto
    then have e: "endsWith q1 NL"
      unfolding q1 by (simp add: endsWith_def)
    from formatCommand_after_break[OF e i, of cfg t2]
    show "\<exists>post. q2 = q1 @ trimSpacesEnd (equalizeWhitespace (showToken cfg t2)) @ post"
      unfolding q2 .
    show "NL \<notin> set (equalizeWhitespace (showToken cfg t2))"
      by (rule NL_notin_equalizeWhitespace)
  }
qed

theorem separator_blank_lines_witness:
  "type (twoStatementTokens ! 2) = OPERATOR \<and>
   value (twoStatementTokens ! 2) = str '';'' \<and>
   snd (projr (formatToken exampleCfg ((startState exampleCfg twoStatementTokens)\<lparr>index := 2\<rparr>)
                 ([NL] @ str ''SELECT'' @ [NL] @ str ''  a ''))) =
     [NL] @ str ''SELECT'' @ [NL] @ str ''  a;'' @ [NL, NL] \<and>
   type (rewritten exampleCfg (twoStatementTokens ! 3)) = RESERVED_COMMAND \<and>
   0 \<le> linesBetweenQueries exampleCfg \<and>
   showToken exampleCfg (rewritten exampleCfg (twoStatementTokens ! 3)) = str ''SELECT'' \<and>
   startsWith
     (snd (projr (formatToken exampleCfg
        ((fst (projr (formatToken exampleCfg
                 ((startState exampleCfg twoStatementTokens)\<lparr>index := 2\<rparr>)
                 ([NL] @ str ''SELECT'' @ [NL] @ str ''  a ''))))\<lparr>index := 3\<rparr>)
        ([NL] @ str ''SELECT'' @ [NL] @ str ''  a;'' @ [NL, NL]))))
     ([NL] @ str ''SELECT'' @ [NL] @ str ''  a;'' @ [NL, NL]) \<and>
   (\<exists>post.
      snd (projr (formatToken exampleCfg
        ((fst (projr (formatToken exampleCfg
                 ((startState exampleCfg twoStatementTokens)\<lparr>index := 2\<rparr>)
                 ([NL] @ str ''SELECT'' @ [NL] @ str ''  a ''))))\<lparr>index := 3\<rparr>)
        ([NL] @ str ''SELECT'' @ [NL] @ str ''  a;'' @ [NL, NL]))) =
      ([NL] @ str ''SELECT'' @ [NL] @ str ''  a;'' @ [NL, NL]) @
      trimSpacesEnd (equalizeWhitespace (str ''SELECT'')) @ post)"
proof -
  let ?st = "(startState exampleCfg twoStatementTokens)\<lparr>index := 2\<rparr>"
  let ?q = "[NL] @ str ''SELECT'' @ [NL] @ str ''  a ''"
  let ?q1 = "[NL] @ str ''SELECT'' @ [NL] @ str ''  a;'' @ [NL, NL]"
  let ?r1 = "formatToken exampleCfg ?st ?q"
  let ?st1 = "fst (projr ?r1)"
  let ?r2 = "formatToken exampleCfg (?st1\<lparr>index := 3\<rparr>) ?q1"
  let ?t2 = "rewritten exampleCfg (twoStatementTokens ! 3)"
  have h1: "type (tokens ?st ! index ?st) = OPERATOR" by code_simp
  have h2: "value (tokens ?st ! index ?st) = str '';''" by code_simp
  have a1: "type (twoStatementTokens ! 2) = OPERATOR" by code_simp
  have a2: "value (twoStatementTokens ! 2) = str '';''" by code_simp
  have l1: "\<not> isl ?r1" by code_simp
  have s1: "snd (projr ?r1) = ?q1" by code_simp
  from l1 s1 have h3: "?r1 = Inr (?st1, ?q1)" by (cases ?r1) auto
  have h4: "Suc (index ?st) < length (tokens ?st)" by code_simp
  have i3: "Suc (index ?st) = 3" by simp
  have l2: "\<not> isl ?r2" by code_simp
  then have "?r2 = Inr (fst (projr ?r2), snd (projr ?r2))" by (cases ?r2) auto
  then have h5: "formatToken exampleCfg (?st1\<lparr>index := Suc (index ?st)\<rparr>) ?q1 =
                   Inr (fst (projr ?r2), snd (projr ?r2))"
    unfolding i3 .
  have h6: "?t2 = rewritten exampleCfg (tokens ?st ! Suc (index ?st))" by code_simp
  have c: "type ?t2 = RESERVED_COMMAND" by code_simp
  have n: "0 \<le> linesBetweenQueries exampleCfg" by code_simp
  have s: "showToken exampleCfg ?t2 = str ''SELECT''" by code_simp
  have k: "(type ?t2 = BLOCK_START \<and> \<not> isToken_CASE ?t2 \<longrightarrow>
              openParenNewline (parenOptions exampleCfg)) \<and>
           (type ?t2 = BLOCK_END \<longrightarrow> closeParenNewline (parenOptions exampleCfg))"
    using c by simp
  from separator_blank_lines[OF h1 h2 h3 h4 h5 h6] k c n
  have sw: "startsWith (snd (projr ?r2)) ?q1"
    and ex: "\<exists>post. snd (projr ?r2) =
               ?q1 @ trimSpacesEnd (equalizeWhitespace (showToken exampleCfg ?t2)) @ post"
    by blast+
  from ex have ex': "\<exists>post. snd (projr ?r2) =
               ?q1 @ trimSpacesEnd (equalizeWhitespace (str ''SELECT'')) @ post"
    unfolding s .
  show ?thesis by (intro conjI a1 a2 s1 c n s sw ex')
qed

text \<open>
  C7 as the specification states it fails: with the count 1 there is one blank line
  after the separator, not two, and with the count 0 there is one, not none; and in
  \<open>select a; (select b)\<close> with \<open>openParenNewline\<close> off and the count 1, the parenthesis
  follows the separator on the same line.
\<close>

theorem separator_blank_lines_counterexample:
  "linesBetweenQueries exampleCfg = 1 \<and>
   blankLinesAfterSeparator
     (projr (getFormattedQueryFromTokens exampleCfg (startState exampleCfg twoStatementTokens))) = 1 \<and>
   blankLinesAfterSeparator
     (projr (getFormattedQueryFromTokens (exampleCfg\<lparr>linesBetweenQueries := 0\<rparr>)
        (startState (exampleCfg\<lparr>linesBetweenQueries := 0\<rparr>) twoStatementTokens))) = 1 \<and>
   format (\<lambda>query. parenStatementTokens)
     (exampleCfg\<lparr>parenOptions := \<lparr>openParenNewline = False, closeParenNewline = True\<rparr>\<rparr>) [] =
     Inr (text_of_lines [''SELECT'', ''  a; ('', ''  SELECT'', ''    b'', ''  )''])"
  by code_simp

section \<open>Keyword case\<close>











lemma showToken_plain: "\<not> hasCase t \<Longrightarrow> showToken cfg t = value t"
  by (simp add: showToken_def hasCase_def)

subsection \<open>The text a handler appends\<close>



























section \<open>The text that \<open>format\<close> returns\<close>

lemma trimEnd_decomp: "s = trimEnd s @ rev (takeWhile isWhitespace (rev s))"
proof -
  have "trimEnd s @ rev (takeWhile isWhitespace (rev s)) =
          rev (takeWhile isWhitespace (rev s) @ dropWhile isWhitespace (rev s))"
    unfolding trimEnd_def by (rule rev_append[symmetric])
  also have "\<dots> = s"
    by (simp only: takeWhile_dropWhile_id rev_rev_ident)
  finally show ?thesis by (rule sym)
qed

lemma trimEnd_hd: "trimEnd s \<noteq> [] \<Longrightarrow> hd (trimEnd s) = hd s"
  using trimEnd_decomp[of s] by (metis hd_append2)

lemma trimEnd_last: "trimEnd s \<noteq> [] \<Longrightarrow> \<not> isWhitespace (last (trimEnd s))"
proof -
  assume "trimEnd s \<noteq> []"
  then have ne: "dropWhile isWhitespace (rev s) \<noteq> []" by (simp add: trimEnd_def)
  then have "\<not> isWhitespace (hd (dropWhile isWhitespace (rev s)))" by (rule hd_dropWhile)
  with ne show ?thesis by (simp add: trimEnd_def last_rev)
qed


lemma format_result:
  assumes "format tokenize cfg query = Inr s"
  shows "\<exists>formattedQuery finalQuery.
           getFormattedQueryFromTokens cfg ((newFormatter cfg)\<lparr>tokens := tokenize query\<rparr>)
             = Inr formattedQuery \<and>
           postFormat cfg formattedQuery = Inr finalQuery \<and>
           s = trimEnd (dropWhile (\<lambda>c. c = NL) finalQuery)"
  using assms by (auto simp: format_def split: sum.splits)

text \<open>
  C4.  The text that \<open>format\<close> returns does not begin with a line break, does not end
  with whitespace, and so does not end with a line break.
\<close>

theorem format_output_trimmed:
  assumes "format tokenize cfg query = Inr s"
  shows "(s = [] \<or> hd s \<noteq> NL) \<and> (s = [] \<or> \<not> isWhitespace (last s)) \<and> \<not> endsWith s NL"
proof -
  from format_result[OF assms] obtain finalQuery where
    s: "s = trimEnd (dropWhile (\<lambda>c. c = NL) finalQuery)" by blast
  have h: "s = [] \<or> hd s \<noteq> NL"
  proof (cases "s = []")
    case True
    then show ?thesis by simp
  next
    case False
    have d: "dropWhile (\<lambda>c. c = NL) finalQuery \<noteq> []"
    proof
      assume "dropWhile (\<lambda>c. c = NL) finalQuery = []"
      then have "s = trimEnd []" unfolding s by (rule arg_cong)
      then have "s = []" by (simp add: trimEnd_def)
      with False show False by simp
    qed
    from False have "hd s = hd (dropWhile (\<lambda>c. c = NL) finalQuery)"
      unfolding s by (rule trimEnd_hd)
    with hd_dropWhile[OF d] show ?thesis by simp
  qed
  have l: "s = [] \<or> \<not> isWhitespace (last s)"
    using trimEnd_last[of "dropWhile (\<lambda>c. c = NL) finalQuery"] s by blast
  have "isWhitespace NL" by (simp add: isWhitespace_def NL_def)
  with l have "\<not> endsWith s NL" by (auto simp: endsWith_def)
  with h l show ?thesis by blast
qed

theorem format_output_trimmed_witness:
  "format (\<lambda>q. selectListTokens) exampleCfg (str ''select a, b from t'') =
     Inr (text_of_lines [''SELECT'', ''  a,'', ''  b'', ''FROM'', ''  t'']) \<and>
   (text_of_lines [''SELECT'', ''  a,'', ''  b'', ''FROM'', ''  t''] = [] \<or>
    hd (text_of_lines [''SELECT'', ''  a,'', ''  b'', ''FROM'', ''  t'']) \<noteq> NL) \<and>
   (text_of_lines [''SELECT'', ''  a,'', ''  b'', ''FROM'', ''  t''] = [] \<or>
    \<not> isWhitespace (last (text_of_lines [''SELECT'', ''  a,'', ''  b'', ''FROM'', ''  t'']))) \<and>
   \<not> endsWith (text_of_lines [''SELECT'', ''  a,'', ''  b'', ''FROM'', ''  t'']) NL"
proof -
  have f: "format (\<lambda>q. selectListTokens) exampleCfg (str ''select a, b from t'') =
     Inr (text_of_lines [''SELECT'', ''  a,'', ''  b'', ''FROM'', ''  t''])"
    by code_simp
  from f format_output_trimmed[OF f] show ?thesis by (rule conjI)
qed

section \<open>Units of the text that the passes produce\<close>



lemma set_stripTrailingComma: "set (stripTrailingComma l) \<subseteq> set l"
  by (auto simp: stripTrailingComma_def dest: in_set_butlastD)

lemma mapResult_all:
  assumes "mapResult f xs = Inr ys" and "\<And>x y. x \<in> set xs \<Longrightarrow> f x = Inr y \<Longrightarrow> P y"
  shows "\<forall>y\<in>set ys. P y"
  using assms
proof (induction xs arbitrary: ys)
  case Nil
  then show ?case by simp
next
  case (Cons x xs)
  from Cons.prems(1) obtain y ys' where
    y: "f x = Inr y" and ys': "mapResult f xs = Inr ys'" and ys: "ys = y # ys'"
    by (auto split: sum.splits)
  have "P y" using Cons.prems(2)[of x y] y by simp
  moreover have "\<forall>y\<in>set ys'. P y"
  proof (rule Cons.IH[OF ys'])
    fix x' y' assume "x' \<in> set xs" and "f x' = Inr y'"
    then show "P y'" using Cons.prems(2)[of x' y'] by simp
  qed
  ultimately show ?case using ys by simp
qed

lemma mapResult_length: "mapResult f xs = Inr ys \<Longrightarrow> length ys = length xs"
  by (induction xs arbitrary: ys) (auto split: sum.splits)

lemma set_tabulateCommas:
  assumes "commaLines \<noteq> []" and "\<forall>l\<in>set commaLines. set l \<subseteq> S" and "SP \<in> S" and "COMMA \<in> S"
  shows "\<forall>l\<in>set (tabulateCommas commaLines). set l \<subseteq> S"
proof -
  have s: "\<forall>l\<in>set (map stripTrailingComma commaLines). set l \<subseteq> S"
    using assms(2) set_stripTrailingComma by fastforce
  have ne: "map stripTrailingComma commaLines \<noteq> []" using assms(1) by simp
  have "set (last (map stripTrailingComma commaLines)) \<subseteq> S"
    using s last_in_set[OF ne] by blast
  moreover have "\<forall>l\<in>set (butlast (map stripTrailingComma commaLines)). set l \<subseteq> S"
    using s by (meson in_set_butlastD)
  ultimately show ?thesis
    using assms(3,4) by (auto simp: tabulateCommas_def Let_def)
qed

lemma set_commaForTwoSpaces: "set (commaForTwoSpaces s) \<subseteq> set s \<union> {COMMA, SP}"
  by (auto simp: commaForTwoSpaces_def dest: in_set_takeD)

lemma firstMatch_split:
  "firstMatch atoms preceding s = Some p \<Longrightarrow>
   \<exists>a b. s = a @ b \<and> p = preceding @ a \<and> matchesAtoms atoms b"
proof (induction atoms preceding s rule: firstMatch.induct)
  case (1 atoms preceding)
  then show ?case by (auto split: if_splits)
next
  case (2 atoms preceding x xs)
  show ?case
  proof (cases "matchesAtoms atoms (x # xs)")
    case True
    with "2.prems" have "p = preceding" by simp
    with True show ?thesis by (intro exI[of _ "[]"] exI[of _ "x # xs"]) simp
  next
    case False
    with "2.prems" have "firstMatch atoms (preceding @ [x]) xs = Some p" by simp
    from "2.IH"[OF False this] obtain a b where
      "xs = a @ b" "p = (preceding @ [x]) @ a" "matchesAtoms atoms b" by blast
    then show ?thesis by (intro exI[of _ "x # a"] exI[of _ b]) simp
  qed
qed

lemma matchesAtoms_literal: "matchesAtoms (map Lit xs) s \<longleftrightarrow> s = xs"
  by (induction xs arbitrary: s) (auto split: list.splits)

lemma parsePattern_literal:
  "\<not> list_ex isRegexSpecial xs \<Longrightarrow> parsePattern xs = Some (map Lit xs)"
proof (induction xs rule: parsePattern.induct)
  case 1
  then show ?case by simp
next
  case (2 c)
  then show ?case by simp
next
  case (3 c d cs)
  from "3.prems" have c: "\<not> isRegexSpecial c" and d: "\<not> isRegexSpecial d"
    and r: "\<not> list_ex isRegexSpecial (d # cs)" by simp_all
  from d have "d \<noteq> 63" by (auto simp: isRegexSpecial_def)
  with "3.IH"(2)[OF c this r] c show ?case by simp
qed

lemma set_replaceAtEnd:
  assumes "set ws \<subseteq> S"
    and "set replacement \<subseteq> S \<or> (atoms = map Lit xs \<and> set replacement \<subseteq> set xs \<union> S)"
  shows "set (replaceAtEnd ws atoms replacement) \<subseteq> S"
proof (cases "firstMatch atoms [] ws")
  case None
  with assms(1) show ?thesis by (simp add: replaceAtEnd_def)
next
  case (Some p)
  from firstMatch_split[OF Some] obtain a b where
    ws: "ws = a @ b" and p: "p = a" and m: "matchesAtoms atoms b" by auto
  have "set replacement \<subseteq> S"
  proof (cases "set replacement \<subseteq> S")
    case True
    then show ?thesis .
  next
    case False
    with assms(2) have l: "atoms = map Lit xs" and r: "set replacement \<subseteq> set xs \<union> S" by auto
    from m have "b = xs" unfolding l matchesAtoms_literal .
    with ws assms(1) have "set xs \<subseteq> S" by auto
    with r show ?thesis by auto
  qed
  moreover have "set p \<subseteq> S" using ws p assms(1) by auto
  ultimately show ?thesis by (simp add: replaceAtEnd_def Some)
qed

lemma set_commaBeforeLine:
  assumes "commaBeforeLine cfg l = Inr l'" and "set l \<subseteq> S" and "SP \<in> S" and "COMMA \<in> S"
    and "literalIndent cfg \<or> set (indent cfg) \<subseteq> S"
  shows "set l' \<subseteq> S"
proof -
  have ws: "set (leadingWhitespace l) \<subseteq> S"
    using assms(2) by (auto simp: leadingWhitespace_def dest: set_takeWhileD)
  have dr: "set (dropWhile isWhitespace l) \<subseteq> S"
    using assms(2) by (auto dest: set_dropWhileD)
  let ?pattern = "if TAB \<in> set (indent cfg) then [TAB] else indent cfg"
  let ?replacement = "commaForTwoSpaces (if TAB \<in> set (indent cfg) then [SP, SP, SP, SP] else indent cfg)"
  from assms(1) obtain atoms where
    a: "parsePattern ?pattern = Some atoms" and
    l': "l' = replaceAtEnd (leadingWhitespace l) atoms ?replacement @ dropWhile isWhitespace l"
    by (auto simp: commaBeforeLine_def Let_def split: if_splits option.splits)
  have "set ?replacement \<subseteq> S \<or> (atoms = map Lit (indent cfg) \<and> set ?replacement \<subseteq> set (indent cfg) \<union> S)"
  proof (cases "TAB \<in> set (indent cfg)")
    case True
    then show ?thesis
      using set_commaForTwoSpaces[of "[SP, SP, SP, SP]"] assms(3,4) by auto
  next
    case False
    show ?thesis
    proof (cases "set (indent cfg) \<subseteq> S")
      case True
      then show ?thesis
        using False set_commaForTwoSpaces[of "indent cfg"] assms(3,4) by auto
    next
      case notIn: False
      with assms(5) False have "\<not> list_ex isRegexSpecial (indent cfg)"
        by (simp add: literalIndent_def)
      from parsePattern_literal[OF this] a False have "atoms = map Lit (indent cfg)" by simp
      then show ?thesis
        using False set_commaForTwoSpaces[of "indent cfg"] assms(3,4) by auto
    qed
  qed
  from set_replaceAtEnd[OF ws this] l' dr show ?thesis by simp
qed

lemma set_commasBefore:
  assumes "commasBefore cfg commaLines = Inr out" and "commaLines \<noteq> []"
    and "\<forall>l\<in>set commaLines. set l \<subseteq> S" and "SP \<in> S" and "COMMA \<in> S"
    and "literalIndent cfg \<or> set (indent cfg) \<subseteq> S"
  shows "\<forall>l\<in>set out. set l \<subseteq> S"
proof -
  let ?stripped = "map stripTrailingComma commaLines"
  have s: "\<forall>l\<in>set ?stripped. set l \<subseteq> S"
    using assms(3) set_stripTrailingComma by fastforce
  from assms(1) obtain ys where
    ys: "mapResult (commaBeforeLine cfg) (tl ?stripped) = Inr ys" and out: "out = hd ?stripped # ys"
    by (auto simp: commasBefore_def prependLines_def Let_def split: sum.splits)
  have "\<forall>y\<in>set ys. set y \<subseteq> S"
  proof (rule mapResult_all[OF ys])
    fix x y assume x: "x \<in> set (tl ?stripped)" and cb: "commaBeforeLine cfg x = Inr y"
    from x have sx: "set x \<subseteq> S" using s by (metis list.sel(2) list.set_sel(2))
    show "set y \<subseteq> S" by (rule set_commaBeforeLine[OF cb sx assms(4,5,6)])
  qed
  moreover have "set (hd ?stripped) \<subseteq> S"
  proof -
    have "hd ?stripped \<in> set ?stripped" using assms(2) by (intro hd_in_set) simp
    with s show ?thesis by blast
  qed
  ultimately show ?thesis using out by simp
qed

lemma set_alignCommas:
  assumes "alignCommas cfg commaLines = Inr out" and "commaLines \<noteq> []"
    and "\<forall>l\<in>set commaLines. set l \<subseteq> S" and "SP \<in> S" and "COMMA \<in> S"
    and "commaPosition cfg = Before \<longrightarrow> literalIndent cfg \<or> set (indent cfg) \<subseteq> S"
  shows "\<forall>l\<in>set out. set l \<subseteq> S"
proof (cases "commaPosition cfg")
  case Before
  with assms(1) have c: "commasBefore cfg commaLines = Inr out" by (simp add: alignCommas_def)
  from assms(6) Before have h: "literalIndent cfg \<or> set (indent cfg) \<subseteq> S" by simp
  show ?thesis by (rule set_commasBefore[OF c assms(2,3,4,5) h])
next
  case After
  with assms(1) have "out = commaLines" by (simp add: alignCommas_def)
  with assms(3) show ?thesis by simp
next
  case Tabular
  with assms(1) have "out = tabulateCommas commaLines" by (simp add: alignCommas_def)
  with set_tabulateCommas[of commaLines S] assms(2,3,4,5) show ?thesis by simp
qed

lemma prependLines_Inr:
  "prependLines ls r = Inr out \<Longrightarrow> \<exists>out'. r = Inr out' \<and> out = ls @ out'"
  by (cases r) (auto simp: prependLines_def)

lemma set_formatCommaLines:
  assumes "SP \<in> S" and "COMMA \<in> S"
  shows "formatCommaLines cfg ls = Inr out \<Longrightarrow> \<forall>l\<in>set ls. set l \<subseteq> S \<Longrightarrow>
           commaPosition cfg = Before \<longrightarrow> literalIndent cfg \<or> set (indent cfg) \<subseteq> S \<Longrightarrow>
           \<forall>l\<in>set out. set l \<subseteq> S"
    and "commaRun cfg commaLines ls' = Inr out \<Longrightarrow> commaLines \<noteq> [] \<Longrightarrow>
           \<forall>l\<in>set commaLines. set l \<subseteq> S \<Longrightarrow> \<forall>l\<in>set ls'. set l \<subseteq> S \<Longrightarrow>
           commaPosition cfg = Before \<longrightarrow> literalIndent cfg \<or> set (indent cfg) \<subseteq> S \<Longrightarrow>
           \<forall>l\<in>set out. set l \<subseteq> S"
proof (induction cfg ls and cfg commaLines ls' arbitrary: out and out
    rule: formatCommaLines_commaRun.induct)
  case (1 cfg)
  then show ?case by simp
next
  case (2 cfg l ls)
  show ?case
  proof (cases "endsWithComma l")
    case True
    with 2 show ?thesis by simp
  next
    case False
    from "2.prems"(1) False have "prependLines [l] (formatCommaLines cfg ls) = Inr out" by simp
    from prependLines_Inr[OF this] obtain out' where
      r: "formatCommaLines cfg ls = Inr out'" and o: "out = [l] @ out'" by blast
    have "\<forall>l\<in>set out'. set l \<subseteq> S"
      using "2.IH"(2)[OF False r] "2.prems"(2,3) by simp
    with o "2.prems"(2) show ?thesis by simp
  qed
next
  case (3 cfg commaLines)
  from "3.prems"(1) obtain aligned where
    a: "alignCommas cfg commaLines = Inr aligned" and o: "out = aligned @ [[]]"
    by (cases "alignCommas cfg commaLines") (auto split: if_splits)
  have "\<forall>l\<in>set aligned. set l \<subseteq> S"
    using set_alignCommas[OF a "3.prems"(2,3) assms "3.prems"(5)] .
  with o show ?case by simp
next
  case (4 cfg commaLines l ls)
  show ?case
  proof (cases "endsWithComma (last commaLines)")
    case True
    with 4 show ?thesis by simp
  next
    case False
    from "4.prems"(1) False obtain aligned where
      a: "alignCommas cfg commaLines = Inr aligned" and
      p: "prependLines (aligned @ [l]) (formatCommaLines cfg ls) = Inr out"
      by (cases "alignCommas cfg commaLines") auto
    from prependLines_Inr[OF p] obtain out' where
      r: "formatCommaLines cfg ls = Inr out'" and o: "out = (aligned @ [l]) @ out'" by blast
    have "\<forall>l\<in>set aligned. set l \<subseteq> S"
      using set_alignCommas[OF a "4.prems"(2,3) assms "4.prems"(5)] .
    moreover have "\<forall>l\<in>set out'. set l \<subseteq> S"
      using "4.IH"(2)[OF False a r] "4.prems"(4,5) by simp
    ultimately show ?thesis using o "4.prems"(4) by auto
  qed
qed















section \<open>The passes leave the lines outside a run as they are\<close>

lemma tabulateCommas_length: "commaLines \<noteq> [] \<Longrightarrow> length (tabulateCommas commaLines) = length commaLines"
  by (simp add: tabulateCommas_def Let_def)

lemma alignCommas_length:
  assumes "alignCommas cfg commaLines = Inr aligned" and "commaLines \<noteq> []"
  shows "length aligned = length commaLines"
proof (cases "commaPosition cfg")
  case Before
  with assms(1) obtain ys where
    ys: "mapResult (commaBeforeLine cfg) (tl (map stripTrailingComma commaLines)) = Inr ys" and
    a: "aligned = hd (map stripTrailingComma commaLines) # ys"
    by (auto simp: alignCommas_def commasBefore_def prependLines_def Let_def split: sum.splits)
  from mapResult_length[OF ys] a assms(2) show ?thesis by simp
next
  case After
  with assms(1) show ?thesis by (simp add: alignCommas_def)
next
  case Tabular
  with assms(1) have "aligned = tabulateCommas commaLines" by (simp add: alignCommas_def)
  with assms(2) show ?thesis by (simp add: tabulateCommas_length)
qed

lemma formatCommaLines_frame:
  shows "formatCommaLines cfg ls = Inr out \<Longrightarrow>
           length ls \<le> length out \<and>
           (\<forall>i<length ls. \<not> inCommaRun ls ! i \<longrightarrow> out ! i = ls ! i)"
    and "commaRun cfg commaLines ls' = Inr out \<Longrightarrow> commaLines \<noteq> [] \<Longrightarrow>
           length commaLines + length ls' \<le> length out \<and>
           (\<forall>i<length ls'. \<not> inCommaRunAfter (last commaLines) ls' ! i \<longrightarrow>
                out ! (length commaLines + i) = ls' ! i)"
proof (induction cfg ls and cfg commaLines ls' arbitrary: out and out
    rule: formatCommaLines_commaRun.induct)
  case (1 cfg)
  then show ?case by simp
next
  case (2 cfg l ls)
  show ?case
  proof (cases "endsWithComma l")
    case True
    with "2.prems" have r: "commaRun cfg [l] ls = Inr out" by simp
    from "2.IH"(1)[OF True r] have
      len: "Suc (length ls) \<le> length out" and
      fr: "\<forall>i<length ls. \<not> inCommaRunAfter l ls ! i \<longrightarrow> out ! Suc i = ls ! i"
      by simp_all
    show ?thesis
    proof (intro conjI allI impI)
      show "length (l # ls) \<le> length out" using len by simp
    next
      fix i assume i: "i < length (l # ls)" and n: "\<not> inCommaRun (l # ls) ! i"
      from n True obtain j where j: "i = Suc j" by (cases i) auto
      with i n True fr show "out ! i = (l # ls) ! i" by simp
    qed
  next
    case False
    from "2.prems" False have "prependLines [l] (formatCommaLines cfg ls) = Inr out" by simp
    from prependLines_Inr[OF this] obtain out' where
      r: "formatCommaLines cfg ls = Inr out'" and o: "out = [l] @ out'" by blast
    from "2.IH"(2)[OF False r] have
      len: "length ls \<le> length out'" and
      fr: "\<forall>i<length ls. \<not> inCommaRun ls ! i \<longrightarrow> out' ! i = ls ! i"
      by simp_all
    show ?thesis
    proof (intro conjI allI impI)
      show "length (l # ls) \<le> length out" using len o by simp
    next
      fix i assume i: "i < length (l # ls)" and n: "\<not> inCommaRun (l # ls) ! i"
      show "out ! i = (l # ls) ! i"
      proof (cases i)
        case 0
        with o show ?thesis by simp
      next
        case (Suc j)
        with i n False fr o show ?thesis by simp
      qed
    qed
  qed
next
  case (3 cfg commaLines)
  from "3.prems"(1) obtain aligned where
    a: "alignCommas cfg commaLines = Inr aligned" and o: "out = aligned @ [[]]"
    by (cases "alignCommas cfg commaLines") (auto split: if_splits)
  from alignCommas_length[OF a "3.prems"(2)] o show ?case by simp
next
  case (4 cfg commaLines l ls)
  show ?case
  proof (cases "endsWithComma (last commaLines)")
    case True
    with "4.prems"(1) have r: "commaRun cfg (commaLines @ [l]) ls = Inr out" by simp
    from "4.IH"(1)[OF True r] have
      len: "length commaLines + Suc (length ls) \<le> length out" and
      fr: "\<forall>i<length ls. \<not> inCommaRunAfter l ls ! i \<longrightarrow>
             out ! (length commaLines + Suc i) = ls ! i"
      by simp_all
    show ?thesis
    proof (intro conjI allI impI)
      show "length commaLines + length (l # ls) \<le> length out" using len by simp
    next
      fix i assume i: "i < length (l # ls)"
        and n: "\<not> inCommaRunAfter (last commaLines) (l # ls) ! i"
      from n True obtain j where j: "i = Suc j" by (cases i) auto
      with i n True fr show "out ! (length commaLines + i) = (l # ls) ! i" by simp
    qed
  next
    case False
    from "4.prems"(1) False obtain aligned where
      a: "alignCommas cfg commaLines = Inr aligned" and
      p: "prependLines (aligned @ [l]) (formatCommaLines cfg ls) = Inr out"
      by (cases "alignCommas cfg commaLines") auto
    from prependLines_Inr[OF p] obtain out' where
      r: "formatCommaLines cfg ls = Inr out'" and o: "out = (aligned @ [l]) @ out'" by blast
    note al = alignCommas_length[OF a "4.prems"(2)]
    from "4.IH"(2)[OF False a r] have
      len: "length ls \<le> length out'" and
      fr: "\<forall>i<length ls. \<not> inCommaRun ls ! i \<longrightarrow> out' ! i = ls ! i"
      by simp_all
    show ?thesis
    proof (intro conjI allI impI)
      show "length commaLines + length (l # ls) \<le> length out" using len o al by simp
    next
      fix i assume i: "i < length (l # ls)"
        and n: "\<not> inCommaRunAfter (last commaLines) (l # ls) ! i"
      show "out ! (length commaLines + i) = (l # ls) ! i"
      proof (cases i)
        case 0
        with o al show ?thesis by (simp add: nth_append)
      next
        case (Suc j)
        with i n False fr have "out' ! j = ls ! j" by simp
        with Suc o al show ?thesis by (simp add: nth_append)
      qed
    qed
  qed
qed

lemma alignAliases_length: "alignAliases aliasLines = Inr aligned \<Longrightarrow> length aligned = length aliasLines"
  using mapResult_length[of _ "map splitAliasLine aliasLines" aligned]
  by (simp add: alignAliases_def Let_def)

lemma formatAliasLines_frame:
  shows "formatAliasLines ls = Inr out \<Longrightarrow>
           length ls \<le> length out \<and>
           (\<forall>i<length ls. \<not> inAliasRun ls ! i \<longrightarrow> out ! i = ls ! i)"
    and "aliasRun aliasLines ls' = Inr out \<Longrightarrow> aliasLines \<noteq> [] \<Longrightarrow>
           length aliasLines + length ls' \<le> length out \<and>
           (\<forall>i<length ls'. \<not> inAliasRunAfter (last aliasLines) ls' ! i \<longrightarrow>
                out ! (length aliasLines + i) = ls' ! i)"
proof (induction ls and aliasLines ls' arbitrary: out and out
    rule: formatAliasLines_aliasRun.induct)
  case 1
  then show ?case by simp
next
  case (2 l)
  show ?case
  proof (cases "startsWithSelect l \<and> endsWithComma l")
    case True
    with "2.prems" show ?thesis by simp
  next
    case False
    with "2.prems" have "out = [l]" by (auto split: if_splits)
    then show ?thesis by simp
  qed
next
  case (3 l l1 ls)
  show ?case
  proof (cases "startsWithSelect l")
    case sel: True
    show ?thesis
    proof (cases "endsWithComma l")
      case True
      with sel "3.prems" have r: "aliasRun [l] (l1 # ls) = Inr out" by simp
      from "3.IH"(1)[OF sel True r] have
        len: "Suc (length (l1 # ls)) \<le> length out" and
        fr: "\<forall>i<length (l1 # ls). \<not> inAliasRunAfter l (l1 # ls) ! i \<longrightarrow>
               out ! Suc i = (l1 # ls) ! i"
        by simp_all
      show ?thesis
      proof (intro conjI allI impI)
        show "length (l # l1 # ls) \<le> length out" using len by simp
      next
        fix i assume i: "i < length (l # l1 # ls)" and n: "\<not> inAliasRun (l # l1 # ls) ! i"
        from n sel True obtain j where j: "i = Suc j" by (cases i) auto
        from n sel True j have "\<not> inAliasRunAfter l (l1 # ls) ! j" by simp
        with fr i j have "out ! Suc j = (l1 # ls) ! j" by simp
        with j show "out ! i = (l # l1 # ls) ! i" by simp
      qed
    next
      case noComma: False
      show ?thesis
      proof (cases "selectWithColumns l")
        case True
        with sel noComma "3.prems"
        have "prependLines [l] (formatAliasLines (l1 # ls)) = Inr out" by simp
        from prependLines_Inr[OF this] obtain out' where
          r: "formatAliasLines (l1 # ls) = Inr out'" and o: "out = [l] @ out'" by blast
        from "3.IH"(2)[OF sel noComma True r] have
          len: "length (l1 # ls) \<le> length out'" and
          fr: "\<forall>i<length (l1 # ls). \<not> inAliasRun (l1 # ls) ! i \<longrightarrow> out' ! i = (l1 # ls) ! i"
          by simp_all
        show ?thesis
        proof (intro conjI allI impI)
          show "length (l # l1 # ls) \<le> length out" using len o by simp
        next
          fix i assume i: "i < length (l # l1 # ls)" and n: "\<not> inAliasRun (l # l1 # ls) ! i"
          show "out ! i = (l # l1 # ls) ! i"
          proof (cases i)
            case 0
            with o show ?thesis by simp
          next
            case (Suc j)
            with n sel noComma True have "\<not> inAliasRun (l1 # ls) ! j" by simp
            with fr i Suc have "out' ! j = (l1 # ls) ! j" by simp
            with Suc o show ?thesis by simp
          qed
        qed
      next
        case False
        with sel noComma "3.prems"
        have "prependLines [l] (aliasRun [l1] ls) = Inr out" by simp
        from prependLines_Inr[OF this] obtain out' where
          r: "aliasRun [l1] ls = Inr out'" and o: "out = [l] @ out'" by blast
        from "3.IH"(3)[OF sel noComma False r] have
          len: "Suc (length ls) \<le> length out'" and
          fr: "\<forall>i<length ls. \<not> inAliasRunAfter l1 ls ! i \<longrightarrow> out' ! Suc i = ls ! i"
          by simp_all
        show ?thesis
        proof (intro conjI allI impI)
          show "length (l # l1 # ls) \<le> length out" using len o by simp
        next
          fix i assume i: "i < length (l # l1 # ls)" and n: "\<not> inAliasRun (l # l1 # ls) ! i"
          show "out ! i = (l # l1 # ls) ! i"
          proof (cases i)
            case 0
            with o show ?thesis by simp
          next
            case (Suc j)
            with n sel noComma False obtain k where k: "j = Suc k" by (cases j) auto
            with Suc n sel noComma False have "\<not> inAliasRunAfter l1 ls ! k" by simp
            with fr i Suc k have "out' ! Suc k = ls ! k" by simp
            with Suc k o show ?thesis by simp
          qed
        qed
      qed
    qed
  next
    case False
    with "3.prems"
    have "prependLines [l] (formatAliasLines (l1 # ls)) = Inr out" by simp
    from prependLines_Inr[OF this] obtain out' where
      r: "formatAliasLines (l1 # ls) = Inr out'" and o: "out = [l] @ out'" by blast
    from "3.IH"(4)[OF False r] have
      len: "length (l1 # ls) \<le> length out'" and
      fr: "\<forall>i<length (l1 # ls). \<not> inAliasRun (l1 # ls) ! i \<longrightarrow> out' ! i = (l1 # ls) ! i"
      by simp_all
    show ?thesis
    proof (intro conjI allI impI)
      show "length (l # l1 # ls) \<le> length out" using len o by simp
    next
      fix i assume i: "i < length (l # l1 # ls)" and n: "\<not> inAliasRun (l # l1 # ls) ! i"
      show "out ! i = (l # l1 # ls) ! i"
      proof (cases i)
        case 0
        with o show ?thesis by simp
      next
        case (Suc j)
        with n False have "\<not> inAliasRun (l1 # ls) ! j" by simp
        with fr i Suc have "out' ! j = (l1 # ls) ! j" by simp
        with Suc o show ?thesis by simp
      qed
    qed
  qed
next
  case (4 aliasLines)
  from "4.prems"(1) obtain aligned where
    a: "alignAliases aliasLines = Inr aligned" and o: "out = aligned @ [[]]"
    by (cases "alignAliases aliasLines") (auto split: if_splits)
  from alignAliases_length[OF a] o show ?case by simp
next
  case (5 aliasLines l ls)
  show ?case
  proof (cases "endsWithComma (last aliasLines)")
    case True
    with "5.prems"(1) have r: "aliasRun (aliasLines @ [l]) ls = Inr out" by simp
    from "5.IH"(1)[OF True r] have
      len: "length aliasLines + Suc (length ls) \<le> length out" and
      fr: "\<forall>i<length ls. \<not> inAliasRunAfter l ls ! i \<longrightarrow>
             out ! (length aliasLines + Suc i) = ls ! i"
      by simp_all
    show ?thesis
    proof (intro conjI allI impI)
      show "length aliasLines + length (l # ls) \<le> length out" using len by simp
    next
      fix i assume i: "i < length (l # ls)"
        and n: "\<not> inAliasRunAfter (last aliasLines) (l # ls) ! i"
      from n True obtain j where j: "i = Suc j" by (cases i) auto
      with i n True fr show "out ! (length aliasLines + i) = (l # ls) ! i" by simp
    qed
  next
    case False
    from "5.prems"(1) False obtain aligned where
      a: "alignAliases aliasLines = Inr aligned" and
      p: "prependLines (aligned @ [l]) (formatAliasLines ls) = Inr out"
      by (cases "alignAliases aliasLines") auto
    from prependLines_Inr[OF p] obtain out' where
      r: "formatAliasLines ls = Inr out'" and o: "out = (aligned @ [l]) @ out'" by blast
    note al = alignAliases_length[OF a]
    from "5.IH"(2)[OF False a r] have
      len: "length ls \<le> length out'" and
      fr: "\<forall>i<length ls. \<not> inAliasRun ls ! i \<longrightarrow> out' ! i = ls ! i"
      by simp_all
    show ?thesis
    proof (intro conjI allI impI)
      show "length aliasLines + length (l # ls) \<le> length out" using len o al by simp
    next
      fix i assume i: "i < length (l # ls)"
        and n: "\<not> inAliasRunAfter (last aliasLines) (l # ls) ! i"
      show "out ! (length aliasLines + i) = (l # ls) ! i"
      proof (cases i)
        case 0
        with o al show ?thesis by (simp add: nth_append)
      next
        case (Suc j)
        with i n False fr have "out' ! j = ls ! j" by simp
        with Suc o al show ?thesis by (simp add: nth_append)
      qed
    qed
  qed
qed

section \<open>The tabular comma pass applied to its own output\<close>

lemma maxLength_ge: "x \<in> set xs \<Longrightarrow> length x \<le> maxLength xs"
  by (induction xs) (auto simp: maxLength_def)

lemma maxLength_eq:
  assumes "\<forall>x\<in>set xs. length x \<le> m" and "\<exists>x\<in>set xs. length x = m"
  shows "maxLength xs = m"
proof (rule antisym)
  show "maxLength xs \<le> m" using assms(1) by (induction xs) (auto simp: maxLength_def)
  show "m \<le> maxLength xs" using assms(2) maxLength_ge by blast
qed

lemma stripTrailingComma_run:
  assumes "\<forall>c\<in>set cs. endsWithComma c" and "\<not> endsWithComma e"
  shows "map stripTrailingComma (cs @ [e]) = map butlast cs @ [e]"
  using assms by (simp add: stripTrailingComma_def)

lemma tabulateCommas_shape:
  assumes "\<forall>c\<in>set cs. endsWithComma c" and "\<not> endsWithComma e"
  shows "tabulateCommas (cs @ [e]) =
           map (\<lambda>x. x @ replicate (maxLength (map butlast cs @ [e]) - length x) SP @ [COMMA])
             (map butlast cs) @ [e]"
  by (simp add: tabulateCommas_def Let_def stripTrailingComma_run[OF assms] del: map_append)

lemma endsWithComma_padded: "endsWithComma (x @ replicate n SP @ [COMMA])"
  by (simp add: endsWithComma_def endsWith_def)

lemma tabulateCommas_idem:
  assumes "cs \<noteq> []" and "\<forall>c\<in>set cs. endsWithComma c" and "\<not> endsWithComma e"
  shows "tabulateCommas (tabulateCommas (cs @ [e])) = tabulateCommas (cs @ [e])"
proof -
  let ?b = "map butlast cs"
  let ?m = "maxLength (?b @ [e])"
  let ?pad = "\<lambda>x. x @ replicate (?m - length x) SP @ [COMMA]"
  let ?cs' = "map ?pad ?b"
  let ?b' = "map (\<lambda>x. x @ replicate (?m - length x) SP) ?b"
  have shape: "tabulateCommas (cs @ [e]) = ?cs' @ [e]"
    by (rule tabulateCommas_shape[OF assms(2,3)])
  have c': "\<forall>c\<in>set ?cs'. endsWithComma c"
    by (auto simp: endsWithComma_padded)
  have bl: "map butlast ?cs' = ?b'"
    by (simp add: butlast_append)
  have le: "\<forall>x\<in>set ?b. length x \<le> ?m"
    using maxLength_ge[of _ "?b @ [e]"] by auto
  have len: "\<forall>x\<in>set ?b'. length x = ?m"
    using le by auto
  have e: "length e \<le> ?m" using maxLength_ge[of e "?b @ [e]"] by simp
  have m': "maxLength (?b' @ [e]) = ?m"
  proof (rule maxLength_eq)
    show "\<forall>x\<in>set (?b' @ [e]). length x \<le> ?m" using len e by auto
    from assms(1) obtain c where "c \<in> set cs" by (cases cs) auto
    then have "butlast c \<in> set ?b" by simp
    then have "butlast c @ replicate (?m - length (butlast c)) SP \<in> set ?b'"
      unfolding set_map by (rule imageI)
    with len have "\<exists>x\<in>set ?b'. length x = ?m" by blast
    then show "\<exists>x\<in>set (?b' @ [e]). length x = ?m" by auto
  qed
  have "tabulateCommas (?cs' @ [e]) =
          map (\<lambda>x. x @ replicate (maxLength (map butlast ?cs' @ [e]) - length x) SP @ [COMMA])
            (map butlast ?cs') @ [e]"
    by (rule tabulateCommas_shape[OF c' assms(3)])
  also have "\<dots> = map (\<lambda>x. x @ replicate (?m - length x) SP @ [COMMA]) ?b' @ [e]"
    unfolding bl m' ..
  also have "map (\<lambda>x. x @ replicate (?m - length x) SP @ [COMMA]) ?b' = ?cs'"
    using le by auto
  finally show ?thesis unfolding shape .
qed

lemma commaRun_collect:
  assumes "endsWithComma (last commaLines)" and "\<forall>c\<in>set cs. endsWithComma c"
  shows "commaRun cfg commaLines (cs @ e # rest) = commaRun cfg (commaLines @ cs @ [e]) rest"
  using assms
proof (induction cs arbitrary: commaLines)
  case Nil
  then show ?case by simp
next
  case (Cons c cs)
  have "commaRun cfg commaLines ((c # cs) @ e # rest) =
          commaRun cfg (commaLines @ [c]) (cs @ e # rest)"
    using Cons.prems(1) by simp
  also have "\<dots> = commaRun cfg ((commaLines @ [c]) @ cs @ [e]) rest"
    using Cons.IH[of "commaLines @ [c]"] Cons.prems(2) by simp
  finally show ?case by simp
qed

lemma commaRun_finish:
  assumes "\<not> endsWithComma (last commaLines)"
  shows "commaRun cfg commaLines rest =
           (case alignCommas cfg commaLines of
              Inl x \<Rightarrow> Inl x
            | Inr aligned \<Rightarrow>
                (case rest of
                   [] \<Rightarrow> Inr (aligned @ [[]])
                 | l # ls \<Rightarrow> prependLines (aligned @ [l]) (formatCommaLines cfg ls)))"
  using assms by (cases rest) (auto split: sum.splits)

lemma formatCommaLines_run:
  assumes "cs \<noteq> []" and "\<forall>c\<in>set cs. endsWithComma c" and "\<not> endsWithComma e"
  shows "formatCommaLines cfg (cs @ e # rest) =
           (case alignCommas cfg (cs @ [e]) of
              Inl x \<Rightarrow> Inl x
            | Inr aligned \<Rightarrow>
                (case rest of
                   [] \<Rightarrow> Inr (aligned @ [[]])
                 | l # ls \<Rightarrow> prependLines (aligned @ [l]) (formatCommaLines cfg ls)))"
proof -
  from assms(1) obtain c cs0 where cs: "cs = c # cs0" by (cases cs) auto
  have "formatCommaLines cfg (cs @ e # rest) = commaRun cfg [c] (cs0 @ e # rest)"
    using assms(2) cs by simp
  also have "\<dots> = commaRun cfg ([c] @ cs0 @ [e]) rest"
    using commaRun_collect[of "[c]" cs0 cfg e rest] assms(2) cs by simp
  also have "\<dots> = commaRun cfg (cs @ [e]) rest" by (simp add: cs)
  finally show ?thesis
    using commaRun_finish[of "cs @ [e]" cfg rest] assms(3) by simp
qed

lemma tabular_run_again:
  assumes "commaPosition cfg = Tabular"
    and "cs \<noteq> []" and "\<forall>c\<in>set cs. endsWithComma c" and "\<not> endsWithComma e"
  shows "formatCommaLines cfg (tabulateCommas (cs @ [e]) @ rest) =
           (case rest of
              [] \<Rightarrow> Inr (tabulateCommas (cs @ [e]) @ [[]])
            | l # ls \<Rightarrow> prependLines (tabulateCommas (cs @ [e]) @ [l]) (formatCommaLines cfg ls))"
proof -
  let ?cs' = "map (\<lambda>x. x @ replicate (maxLength (map butlast cs @ [e]) - length x) SP @ [COMMA])
             (map butlast cs)"
  have shape: "tabulateCommas (cs @ [e]) = ?cs' @ [e]"
    by (rule tabulateCommas_shape[OF assms(3,4)])
  have ne: "?cs' \<noteq> []" using assms(2) by simp
  have c': "\<forall>c\<in>set ?cs'. endsWithComma c" by (auto simp: endsWithComma_padded)
  have step: "formatCommaLines cfg (?cs' @ e # rest) = (case alignCommas cfg (?cs' @ [e]) of
              Inl x \<Rightarrow> Inl x
            | Inr aligned \<Rightarrow>
                (case rest of
                   [] \<Rightarrow> Inr (aligned @ [[]])
                 | l # ls \<Rightarrow> prependLines (aligned @ [l]) (formatCommaLines cfg ls)))"
    by (rule formatCommaLines_run[OF ne c' assms(4)])
  have "tabulateCommas (?cs' @ [e]) = ?cs' @ [e]"
    using tabulateCommas_idem[OF assms(2,3,4)] unfolding shape .
  then have a: "alignCommas cfg (?cs' @ [e]) = Inr (?cs' @ [e])"
    using assms(1) by (simp add: alignCommas_def)
  have main: "formatCommaLines cfg (?cs' @ e # rest) =
           (case rest of
              [] \<Rightarrow> Inr ((?cs' @ [e]) @ [[]])
            | l # ls \<Rightarrow> prependLines ((?cs' @ [e]) @ [l]) (formatCommaLines cfg ls))"
    unfolding step a by (simp only: sum.case)
  have eq: "(?cs' @ [e]) @ rest = ?cs' @ e # rest" by simp
  show ?thesis unfolding shape eq by (rule main)
qed

lemma formatCommaLines_tabular_idem:
  shows "formatCommaLines cfg ls = Inr out \<Longrightarrow> commaPosition cfg = Tabular \<Longrightarrow>
           formatCommaLines cfg out = Inr out"
    and "commaRun cfg commaLines ls' = Inr out \<Longrightarrow> commaPosition cfg = Tabular \<Longrightarrow>
           commaLines \<noteq> [] \<Longrightarrow> endsWithComma (hd commaLines) \<Longrightarrow>
           \<forall>l\<in>set (butlast commaLines). endsWithComma l \<Longrightarrow>
           formatCommaLines cfg out = Inr out"
proof (induction cfg ls and cfg commaLines ls' arbitrary: out and out
    rule: formatCommaLines_commaRun.induct)
  case (1 cfg)
  then show ?case by simp
next
  case (2 cfg l ls)
  show ?case
  proof (cases "endsWithComma l")
    case True
    with "2.prems"(1) have r: "commaRun cfg [l] ls = Inr out" by simp
    from "2.IH"(1)[OF True r "2.prems"(2)] True show ?thesis by simp
  next
    case False
    from "2.prems"(1) False have "prependLines [l] (formatCommaLines cfg ls) = Inr out" by simp
    from prependLines_Inr[OF this] obtain out' where
      r: "formatCommaLines cfg ls = Inr out'" and o: "out = [l] @ out'" by blast
    from "2.IH"(2)[OF False r "2.prems"(2)] False o show ?thesis
      by (simp add: prependLines_def)
  qed
next
  case (3 cfg commaLines)
  from "3.prems"(1) have nc: "\<not> endsWithComma (last commaLines)" by (auto split: if_splits)
  from "3.prems"(1,2) nc have o: "out = tabulateCommas commaLines @ [[]]"
    by (auto simp: alignCommas_def)
  have run: "commaLines = butlast commaLines @ [last commaLines]"
    using "3.prems"(3) by simp
  have ne: "butlast commaLines \<noteq> []"
  proof
    assume "butlast commaLines = []"
    with run have "commaLines = [last commaLines]" by simp
    then have "hd commaLines = hd [last commaLines]" by (rule arg_cong)
    with "3.prems"(4) nc show False by simp
  qed
  from tabular_run_again[OF "3.prems"(2) ne "3.prems"(5) nc, of "[[]]"] run o
  show ?case by (simp add: prependLines_def)
next
  case (4 cfg commaLines l ls)
  show ?case
  proof (cases "endsWithComma (last commaLines)")
    case True
    with "4.prems"(1) have r: "commaRun cfg (commaLines @ [l]) ls = Inr out" by simp
    have all: "\<forall>c\<in>set (butlast (commaLines @ [l])). endsWithComma c"
    proof -
      have "set commaLines = set (butlast commaLines @ [last commaLines])"
        using "4.prems"(3) by simp
      also have "\<dots> = set (butlast commaLines) \<union> {last commaLines}"
        by (simp del: append_butlast_last_id)
      finally show ?thesis using True "4.prems"(5) by auto
    qed
    have hd: "endsWithComma (hd (commaLines @ [l]))" using "4.prems"(3,4) by simp
    from "4.IH"(1)[OF True r "4.prems"(2) _ hd all] show ?thesis by simp
  next
    case False
    from "4.prems"(1,2) False have
      p: "prependLines (tabulateCommas commaLines @ [l]) (formatCommaLines cfg ls) = Inr out"
      by (auto simp: alignCommas_def)
    from prependLines_Inr[OF p] obtain out' where
      r: "formatCommaLines cfg ls = Inr out'" and
      o: "out = (tabulateCommas commaLines @ [l]) @ out'" by blast
    have a: "alignCommas cfg commaLines = Inr (tabulateCommas commaLines)"
      using "4.prems"(2) by (simp add: alignCommas_def)
    have ih: "formatCommaLines cfg out' = Inr out'"
      using "4.IH"(2)[OF False a r "4.prems"(2)] .
    have run: "commaLines = butlast commaLines @ [last commaLines]"
      using "4.prems"(3) by simp
    have ne: "butlast commaLines \<noteq> []"
    proof
      assume "butlast commaLines = []"
      with run have "commaLines = [last commaLines]" by simp
      then have "hd commaLines = hd [last commaLines]" by (rule arg_cong)
      with "4.prems"(4) False show False by simp
    qed
    from tabular_run_again[OF "4.prems"(2) ne "4.prems"(5) False, of "l # out'"] run ih o
    show ?thesis by (simp add: prependLines_def)
  qed
qed

lemma splitOn_no_separator: "c \<notin> set l \<Longrightarrow> splitOn c l = [l]"
  by (induction l) auto

lemma splitOn_append:
  "c \<notin> set x \<Longrightarrow> splitOn c (x @ c # rest) = x # splitOn c rest"
  by (induction x) auto

lemma splitOn_joinWith:
  "ls \<noteq> [] \<Longrightarrow> \<forall>l\<in>set ls. c \<notin> set l \<Longrightarrow> splitOn c (joinWith c ls) = ls"
proof (induction c ls rule: joinWith.induct)
  case (1 c)
  then show ?case by simp
next
  case (2 c x)
  then show ?case by (simp add: splitOn_no_separator)
next
  case (3 c x y ys)
  then show ?case by (simp add: splitOn_append)
qed

lemma splitOn_not_in: "l \<in> set (splitOn c s) \<Longrightarrow> c \<notin> set l"
proof (induction s arbitrary: l)
  case Nil
  then show ?case by simp
next
  case (Cons x xs)
  show ?case
  proof (cases "x = c")
    case True
    with Cons show ?thesis by auto
  next
    case False
    show ?thesis
    proof (cases "splitOn c xs")
      case Nil
      with False Cons.prems show ?thesis by simp
    next
      case (Cons y ys)
      with False Cons.prems have "l = x # y \<or> l \<in> set ys" by simp
      then show ?thesis
        using Cons.IH[of y] Cons.IH[of l] Cons False by auto
    qed
  qed
qed

lemma splitOn_nonempty: "splitOn c s \<noteq> []"
  by (induction s) (auto split: list.splits)

lemma formatCommaPositions_tabular_idem:
  assumes "commaPosition cfg = Tabular" and "formatCommaPositions cfg query = Inr out"
  shows "formatCommaPositions cfg out = Inr out"
proof -
  from assms(2) obtain newQuery where
    n: "formatCommaLines cfg (splitOn NL query) = Inr newQuery" and o: "out = joinWith NL newQuery"
    by (auto simp: formatCommaPositions_def split: sum.splits)
  have sp: "\<forall>l\<in>set (splitOn NL query). set l \<subseteq> {c. c \<noteq> NL}"
    using splitOn_not_in by fastforce
  have h: "commaPosition cfg = Before \<longrightarrow> literalIndent cfg \<or> set (indent cfg) \<subseteq> {c. c \<noteq> NL}"
    using assms(1) by simp
  from set_formatCommaLines(1)[OF _ _ n sp h]
  have clean: "\<forall>l\<in>set newQuery. NL \<notin> set l"
    by (auto simp: SP_def COMMA_def NL_def)
  have "length (splitOn NL query) \<le> length newQuery"
    using formatCommaLines_frame(1)[OF n] by simp
  with splitOn_nonempty[of NL query] have ne: "newQuery \<noteq> []" by auto
  have "splitOn NL out = newQuery"
    unfolding o by (rule splitOn_joinWith[OF ne clean])
  with formatCommaLines_tabular_idem(1)[OF n assms(1)] o show ?thesis
    by (simp add: formatCommaPositions_def)
qed

text \<open>
  C9, as the code has it.  The comma pass in the tabular mode, applied to a text it has
  returned, returns that text again.  Each pass returns at least as many lines as it is
  given and leaves every line outside a run as it is, in its place: for the comma pass a
  run is the lines that end in a comma, one after another, and the line after them; for
  the alias pass it is the lines of a SELECT clause taken up to the first that does not
  end in a comma.
\<close>

theorem post_format_passes:
  "(commaPosition cfg = Tabular \<longrightarrow> formatCommaPositions cfg query = Inr out \<longrightarrow>
      formatCommaPositions cfg out = Inr out) \<and>
   (formatCommaLines cfg ls = Inr newQuery \<longrightarrow>
      length ls \<le> length newQuery \<and>
      (\<forall>i<length ls. \<not> inCommaRun ls ! i \<longrightarrow> newQuery ! i = ls ! i)) \<and>
   (formatAliasLines ls = Inr newQuery' \<longrightarrow>
      length ls \<le> length newQuery' \<and>
      (\<forall>i<length ls. \<not> inAliasRun ls ! i \<longrightarrow> newQuery' ! i = ls ! i))"
  using formatCommaPositions_tabular_idem[of cfg query out]
    formatCommaLines_frame(1)[of cfg ls newQuery]
    formatAliasLines_frame(1)[of ls newQuery']
  by blast

theorem post_format_passes_witness:
  "commaPosition (exampleCfg\<lparr>commaPosition := Tabular\<rparr>) = Tabular \<and>
   formatCommaPositions (exampleCfg\<lparr>commaPosition := Tabular\<rparr>)
     (text_of_lines [''SELECT'', ''  a,'', ''  bbb,'', ''  c'', ''FROM'', ''  t''])
     = Inr (text_of_lines [''SELECT'', ''  a  ,'', ''  bbb,'', ''  c'', ''FROM'', ''  t'']) \<and>
   formatCommaPositions (exampleCfg\<lparr>commaPosition := Tabular\<rparr>)
     (text_of_lines [''SELECT'', ''  a  ,'', ''  bbb,'', ''  c'', ''FROM'', ''  t''])
     = Inr (text_of_lines [''SELECT'', ''  a  ,'', ''  bbb,'', ''  c'', ''FROM'', ''  t'']) \<and>
   formatCommaLines (exampleCfg\<lparr>commaPosition := Tabular\<rparr>)
     (map str [''SELECT'', ''  a,'', ''  bbb,'', ''  c'', ''FROM'', ''  t''])
     = Inr (map str [''SELECT'', ''  a  ,'', ''  bbb,'', ''  c'', ''FROM'', ''  t'']) \<and>
   \<not> inCommaRun (map str [''SELECT'', ''  a,'', ''  bbb,'', ''  c'', ''FROM'', ''  t'']) ! 4 \<and>
   map str [''SELECT'', ''  a  ,'', ''  bbb,'', ''  c'', ''FROM'', ''  t''] ! 4
     = map str [''SELECT'', ''  a,'', ''  bbb,'', ''  c'', ''FROM'', ''  t''] ! 4 \<and>
   formatAliasLines (map str [''SELECT'', ''  a AS x,'', ''  bbb y,'', ''  c'', ''FROM'', ''  t''])
     = Inr (map str [''SELECT'', ''  a   AS x,'', ''  bbb y,'', ''  c'', ''FROM'', ''  t'']) \<and>
   \<not> inAliasRun (map str [''SELECT'', ''  a AS x,'', ''  bbb y,'', ''  c'', ''FROM'', ''  t'']) ! 0 \<and>
   map str [''SELECT'', ''  a   AS x,'', ''  bbb y,'', ''  c'', ''FROM'', ''  t''] ! 0
     = map str [''SELECT'', ''  a AS x,'', ''  bbb y,'', ''  c'', ''FROM'', ''  t''] ! 0"
proof -
  let ?cfg = "exampleCfg\<lparr>commaPosition := Tabular\<rparr>"
  let ?q = "text_of_lines [''SELECT'', ''  a,'', ''  bbb,'', ''  c'', ''FROM'', ''  t'']"
  let ?o = "text_of_lines [''SELECT'', ''  a  ,'', ''  bbb,'', ''  c'', ''FROM'', ''  t'']"
  let ?ls = "map str [''SELECT'', ''  a,'', ''  bbb,'', ''  c'', ''FROM'', ''  t'']"
  let ?nq = "map str [''SELECT'', ''  a  ,'', ''  bbb,'', ''  c'', ''FROM'', ''  t'']"
  let ?al = "map str [''SELECT'', ''  a AS x,'', ''  bbb y,'', ''  c'', ''FROM'', ''  t'']"
  let ?aq = "map str [''SELECT'', ''  a   AS x,'', ''  bbb y,'', ''  c'', ''FROM'', ''  t'']"
  have t: "commaPosition ?cfg = Tabular" by simp
  have f: "formatCommaPositions ?cfg ?q = Inr ?o" by code_simp
  have c: "formatCommaLines ?cfg ?ls = Inr ?nq" by code_simp
  have m: "\<not> inCommaRun ?ls ! 4" by code_simp
  have i4: "4 < length ?ls" by simp
  have a: "formatAliasLines ?al = Inr ?aq" by code_simp
  have n: "\<not> inAliasRun ?al ! 0" by code_simp
  have i0: "0 < length ?al" by simp
  have idem: "formatCommaPositions ?cfg ?o = Inr ?o"
    using post_format_passes[of ?cfg ?q ?o] t f by blast
  have "\<forall>i<length ?ls. \<not> inCommaRun ?ls ! i \<longrightarrow> ?nq ! i = ?ls ! i"
    using post_format_passes[of ?cfg _ _ ?ls ?nq] c by blast
  with m i4 have k4: "?nq ! 4 = ?ls ! 4" by blast
  have "\<forall>i<length ?al. \<not> inAliasRun ?al ! i \<longrightarrow> ?aq ! i = ?al ! i"
    using post_format_passes[of _ _ _ ?al _ ?aq] a by blast
  with n i0 have k0: "?aq ! 0 = ?al ! 0" by blast
  show ?thesis by (intro conjI t f idem c m k4 a n k0)
qed

text \<open>
  C9 as the specification states it fails for the alias pass and for the comma pass in
  the mode \<open>before\<close>.  The alias pass, applied to the text it returns for a SELECT
  clause with one alias after AS and one without, moves the second alias again: on its
  own output it takes \<open>AS\<close> for the end of the column.  The comma pass in the mode
  \<open>before\<close> leaves the line after a run as it is, and on its own output starts a run
  there.
\<close>

theorem passes_not_idempotent_counterexample:
  "formatAliasPositions
     (text_of_lines [''SELECT'', ''  a AS x,'', ''  count(*) y'', ''FROM'', ''  t''])
     = Inr (text_of_lines [''SELECT'', ''  a        AS x,'', ''  count(*) y'', ''FROM'', ''  t'']) \<and>
   formatAliasPositions
     (text_of_lines [''SELECT'', ''  a        AS x,'', ''  count(*) y'', ''FROM'', ''  t''])
     = Inr (text_of_lines [''SELECT'', ''  a        AS x,'', ''  count(*)    y'', ''FROM'', ''  t'']) \<and>
   text_of_lines [''SELECT'', ''  a        AS x,'', ''  count(*)    y'', ''FROM'', ''  t'']
     \<noteq> text_of_lines [''SELECT'', ''  a        AS x,'', ''  count(*) y'', ''FROM'', ''  t''] \<and>
   formatCommaPositions (exampleCfg\<lparr>commaPosition := Before\<rparr>)
     (text_of_lines [''  a,'', ''  b'', ''  c,'', ''  d''])
     = Inr (text_of_lines [''  a'', '', b'', ''  c,'', ''  d'']) \<and>
   formatCommaPositions (exampleCfg\<lparr>commaPosition := Before\<rparr>)
     (text_of_lines [''  a'', '', b'', ''  c,'', ''  d''])
     = Inr (text_of_lines [''  a'', '', b'', ''  c'', '', d'', '''']) \<and>
   text_of_lines [''  a'', '', b'', ''  c'', '', d'', '''']
     \<noteq> text_of_lines [''  a'', '', b'', ''  c,'', ''  d'']"
  by code_simp

end
